theory Spec2Isabelle
  imports Complex_Main "HOL-Library.Log_Nat"
begin

section \<open>Python values and exceptions\<close>

text \<open>
  The agent of \<^verbatim>\<open>agent_travaux.py\<close> receives tool inputs decoded from JSON, so a tool
  parameter can hold any JSON-derived Python value. \<open>pyval\<close> is the universe of the values
  of these types; an int in it has any size, also one too long for the JSON decoder,
  which a direct caller of a tool can pass all the same. A Python \<^verbatim>\<open>str\<close> is kept as the
  list of the bytes of its UTF-8 encoding; a \<^verbatim>\<open>dict\<close> decoded from a JSON object is an
  association list in insertion order.

  A Python \<^verbatim>\<open>float\<close> is an IEEE 754 binary64 number: \<open>Fin q\<close> is the finite double of
  value \<open>q\<close>, and the two infinities and NaN are constructors of their own. The sign of
  a zero is not kept (Python's \<^verbatim>\<open>==\<close> does not see it either).

  What the model leaves out: exhaustion of memory or of the recursion limit
  (\<^verbatim>\<open>MemoryError\<close>, \<^verbatim>\<open>RecursionError\<close>), and the text that logging and printing
  write. A conversion to text that can raise is in the model, also where the source makes
  it for a log line.
\<close>

datatype pyfloat = Fin rat | PInf | NInf | NaN

datatype pyval =
    PNone
  | PBool bool
  | PInt int
  | PFloat pyfloat
  | PStr string
  | PList "pyval list"
  | PDict "(string \<times> pyval) list"

datatype py_exc = TypeError | ValueError | OverflowError | ZeroDivisionError

text \<open>A computation that may raise returns \<open>Inl\<close> of the exception.\<close>

definition then_res :: "py_exc + 'a \<Rightarrow> ('a \<Rightarrow> py_exc + 'b) \<Rightarrow> py_exc + 'b" where
  "then_res m f = (case m of Inl e \<Rightarrow> Inl e | Inr x \<Rightarrow> f x)"

section \<open>binary64 arithmetic\<close>

definition pow2 :: "int \<Rightarrow> rat" where
  "pow2 e = (if 0 \<le> e then 2 ^ nat e else 1 / 2 ^ nat (- e))"

text \<open>\<open>ilog2 q\<close> is the exponent \<open>e\<close> with \<open>2^e \<le> |q| < 2^(e+1)\<close>, for \<open>q \<noteq> 0\<close>.\<close>

definition ilog2 :: "rat \<Rightarrow> int" where
  "ilog2 q = (let a = \<bar>q\<bar> in
     if 1 \<le> a then bitlen \<lfloor>a\<rfloor> - 1 else - bitlen (\<lceil>1 / a\<rceil> - 1))"

definition round_half_even :: "rat \<Rightarrow> int" where
  "round_half_even q = (let f = \<lfloor>q\<rfloor>; r = q - of_int f in
     if r < 1 / 2 then f else if 1 / 2 < r then f + 1 else if even f then f else f + 1)"

text \<open>
  \<open>fl q\<close> rounds the exact value \<open>q\<close> to the nearest double, ties to even: 53 bits of
  significand, subnormals below \<open>2^-1022\<close>, and an infinity once the rounded value
  reaches \<open>2^1024\<close> (the exponent is above 1023, or it is 1023 and the significand has
  rounded up to \<open>2^53\<close>). Every float literal and every float operation of Python goes
  through it.
\<close>

definition fl :: "rat \<Rightarrow> pyfloat" where
  "fl q = (if q = 0 then Fin 0 else
     let e = max (ilog2 q) (- 1022);
         m = round_half_even (q / pow2 (e - 52))
     in if 1023 < e \<or> (e = 1023 \<and> \<bar>m\<bar> = 2 ^ 53) then (if 0 < q then PInf else NInf)
        else Fin (of_int m * pow2 (e - 52)))"

text \<open>
  A float literal of the source, written in decimal: \<open>decimal 18 1\<close> is the literal
  \<^verbatim>\<open>1.8\<close>, that is the double nearest to \<open>18 / 10\<close>.
\<close>

definition decimal :: "int \<Rightarrow> nat \<Rightarrow> pyfloat" where
  "decimal m d = fl (of_int m / 10 ^ d)"

text \<open>\<^verbatim>\<open>float(n)\<close> for an int: correctly rounded, \<^verbatim>\<open>OverflowError\<close> when too large.\<close>

definition float_of_int :: "int \<Rightarrow> py_exc + pyfloat" where
  "float_of_int n = (case fl (of_int n) of Fin q \<Rightarrow> Inr (Fin q) | _ \<Rightarrow> Inl OverflowError)"

fun float_mul :: "pyfloat \<Rightarrow> pyfloat \<Rightarrow> pyfloat" where
  "float_mul NaN y = NaN"
| "float_mul x NaN = NaN"
| "float_mul (Fin a) (Fin b) = fl (a * b)"
| "float_mul (Fin a) PInf = (if a = 0 then NaN else if 0 < a then PInf else NInf)"
| "float_mul (Fin a) NInf = (if a = 0 then NaN else if 0 < a then NInf else PInf)"
| "float_mul PInf (Fin b) = (if b = 0 then NaN else if 0 < b then PInf else NInf)"
| "float_mul NInf (Fin b) = (if b = 0 then NaN else if 0 < b then NInf else PInf)"
| "float_mul PInf PInf = PInf"
| "float_mul PInf NInf = NInf"
| "float_mul NInf PInf = NInf"
| "float_mul NInf NInf = PInf"

text \<open>Python raises \<^verbatim>\<open>ZeroDivisionError\<close> on a float division by zero, whatever the dividend.\<close>

fun float_div :: "pyfloat \<Rightarrow> pyfloat \<Rightarrow> py_exc + pyfloat" where
  "float_div x (Fin b) =
     (if b = 0 then Inl ZeroDivisionError
      else case x of
        Fin a \<Rightarrow> Inr (fl (a / b))
      | NaN \<Rightarrow> Inr NaN
      | PInf \<Rightarrow> Inr (if 0 < b then PInf else NInf)
      | NInf \<Rightarrow> Inr (if 0 < b then NInf else PInf))"
| "float_div x NaN = Inr NaN"
| "float_div (Fin a) y = Inr (Fin 0)"
| "float_div x y = Inr NaN"

text \<open>The integer square root, two bits at a time.\<close>

function isqrt :: "int \<Rightarrow> int" where
  "isqrt n = (if n < 2 then n
     else let r = 2 * isqrt (n div 4) in if (r + 1) * (r + 1) \<le> n then r + 1 else r)"
  by pat_completeness auto
termination
  by (relation "measure nat") auto

declare isqrt.simps [simp del]

text \<open>
  The correctly rounded square root of \<open>q > 0\<close>, as IEEE 754 asks of \<^verbatim>\<open>sqrt\<close>: the integer
  square root \<open>s\<close> of \<open>q * 4^k\<close> has more than 55 bits, so that \<open>s\<close> (when the root is
  exact) or \<open>s + 1/2\<close> (when it is not) rounds to the same double as the root itself.
\<close>

definition sqrt_rat :: "rat \<Rightarrow> pyfloat" where
  "sqrt_rat q = (let k = nat (max 0 (55 - ilog2 q div 2));
                    x = q * 4 ^ k;
                    s = isqrt \<lfloor>x\<rfloor>;
                    p = (if of_int (s * s) = x then of_int s else of_int s + 1 / 2)
                in fl (p / 2 ^ k))"

fun float_sqrt :: "pyfloat \<Rightarrow> py_exc + pyfloat" where
  "float_sqrt NaN = Inr NaN"
| "float_sqrt PInf = Inr PInf"
| "float_sqrt NInf = Inl ValueError"
| "float_sqrt (Fin q) =
     (if q < 0 then Inl ValueError else if q = 0 then Inr (Fin 0) else Inr (sqrt_rat q))"

section \<open>Python operators on JSON-derived values\<close>

text \<open>The numeric view of a value: \<^verbatim>\<open>bool\<close> is a subclass of \<^verbatim>\<open>int\<close>.\<close>

datatype pynum = NInt int | NFloat pyfloat

fun as_num :: "pyval \<Rightarrow> pynum option" where
  "as_num (PBool b) = Some (NInt (if b then 1 else 0))"
| "as_num (PInt n) = Some (NInt n)"
| "as_num (PFloat x) = Some (NFloat x)"
| "as_num v = None"

text \<open>
  \<^verbatim>\<open>seq * n\<close> on a \<^verbatim>\<open>str\<close> or a \<^verbatim>\<open>list\<close>: the count must fit a 64-bit index. (A result
  too long for the machine is a case of memory exhaustion, which the model leaves out.)
\<close>

definition seq_repeat :: "'a list \<Rightarrow> int \<Rightarrow> py_exc + 'a list" where
  "seq_repeat xs n =
     (if n < - (2 ^ 63) \<or> 2 ^ 63 \<le> n then Inl OverflowError
      else Inr (concat (replicate (nat n) xs)))"

fun as_index :: "pyval \<Rightarrow> int option" where
  "as_index (PBool b) = Some (if b then 1 else 0)"
| "as_index (PInt n) = Some n"
| "as_index v = None"

fun num_mul :: "pynum \<Rightarrow> pynum \<Rightarrow> py_exc + pyval" where
  "num_mul (NInt a) (NInt b) = Inr (PInt (a * b))"
| "num_mul (NInt a) (NFloat y) = then_res (float_of_int a) (\<lambda>x. Inr (PFloat (float_mul x y)))"
| "num_mul (NFloat x) (NInt b) = then_res (float_of_int b) (\<lambda>y. Inr (PFloat (float_mul x y)))"
| "num_mul (NFloat x) (NFloat y) = Inr (PFloat (float_mul x y))"

text \<open>Python's \<^verbatim>\<open>a * b\<close>.\<close>

definition py_mul :: "pyval \<Rightarrow> pyval \<Rightarrow> py_exc + pyval" where
  "py_mul a b =
     (case (as_num a, as_num b) of
        (Some x, Some y) \<Rightarrow> num_mul x y
      | _ \<Rightarrow>
        (case (a, as_index b) of
           (PStr s, Some n) \<Rightarrow> then_res (seq_repeat s n) (\<lambda>r. Inr (PStr r))
         | (PList l, Some n) \<Rightarrow> then_res (seq_repeat l n) (\<lambda>r. Inr (PList r))
         | _ \<Rightarrow>
           (case (as_index a, b) of
              (Some n, PStr s) \<Rightarrow> then_res (seq_repeat s n) (\<lambda>r. Inr (PStr r))
            | (Some n, PList l) \<Rightarrow> then_res (seq_repeat l n) (\<lambda>r. Inr (PList r))
            | _ \<Rightarrow> Inl TypeError)))"

text \<open>
  Python's true division \<^verbatim>\<open>a / b\<close>: between two ints the exact quotient is rounded
  once; with a float, the int is converted first.
\<close>

definition py_truediv :: "pyval \<Rightarrow> pyval \<Rightarrow> py_exc + pyval" where
  "py_truediv a b =
     (case (as_num a, as_num b) of
        (Some (NInt m), Some (NInt n)) \<Rightarrow>
          (if n = 0 then Inl ZeroDivisionError
           else case fl (of_int m / of_int n) of
             Fin q \<Rightarrow> Inr (PFloat (Fin q)) | _ \<Rightarrow> Inl OverflowError)
      | (Some (NInt m), Some (NFloat y)) \<Rightarrow>
          then_res (float_of_int m) (\<lambda>x. then_res (float_div x y) (\<lambda>r. Inr (PFloat r)))
      | (Some (NFloat x), Some (NInt n)) \<Rightarrow>
          then_res (float_of_int n) (\<lambda>y. then_res (float_div x y) (\<lambda>r. Inr (PFloat r)))
      | (Some (NFloat x), Some (NFloat y)) \<Rightarrow>
          then_res (float_div x y) (\<lambda>r. Inr (PFloat r))
      | _ \<Rightarrow> Inl TypeError)"

text \<open>\<^verbatim>\<open>math.sqrt(x)\<close>: the argument is converted to a float.\<close>

definition math_sqrt :: "pyval \<Rightarrow> py_exc + pyval" where
  "math_sqrt v =
     (case as_num v of
        None \<Rightarrow> Inl TypeError
      | Some (NInt n) \<Rightarrow>
          then_res (float_of_int n) (\<lambda>x. then_res (float_sqrt x) (\<lambda>r. Inr (PFloat r)))
      | Some (NFloat x) \<Rightarrow> then_res (float_sqrt x) (\<lambda>r. Inr (PFloat r)))"

text \<open>\<^verbatim>\<open>round(x)\<close> with one argument returns an int, rounding a half to the even neighbour.\<close>

definition py_round :: "pyval \<Rightarrow> py_exc + int" where
  "py_round v =
     (case as_num v of
        None \<Rightarrow> Inl TypeError
      | Some (NInt n) \<Rightarrow> Inr n
      | Some (NFloat (Fin q)) \<Rightarrow> Inr (round_half_even q)
      | Some (NFloat NaN) \<Rightarrow> Inl ValueError
      | Some (NFloat _) \<Rightarrow> Inl OverflowError)"

text \<open>
  \<^verbatim>\<open>round(x, nd)\<close> for \<open>nd \<ge> 0\<close>: an int is returned as it is; a float is rounded to \<open>nd\<close>
  decimals on its exact value (a half to the even neighbour) and the decimal result is
  converted back to the nearest double; infinities and NaN round to themselves.
\<close>

definition py_round_nd :: "pyval \<Rightarrow> nat \<Rightarrow> py_exc + pyval" where
  "py_round_nd v nd =
     (case as_num v of
        None \<Rightarrow> Inl TypeError
      | Some (NInt n) \<Rightarrow> Inr (PInt n)
      | Some (NFloat (Fin q)) \<Rightarrow>
          Inr (PFloat (fl (of_int (round_half_even (q * 10 ^ nd)) / 10 ^ nd)))
      | Some (NFloat x) \<Rightarrow> Inr (PFloat x))"

text \<open>Lists and dicts are unhashable; using one as a dict key raises \<^verbatim>\<open>TypeError\<close>.\<close>

fun hashable :: "pyval \<Rightarrow> bool" where
  "hashable (PList l) = False"
| "hashable (PDict d) = False"
| "hashable v = True"

text \<open>
  \<^verbatim>\<open>d.get(key, default)\<close> on a dict whose keys are all strings: a key of another type
  is equal to none of them.
\<close>

definition dict_get :: "(string \<times> 'v) list \<Rightarrow> pyval \<Rightarrow> 'v \<Rightarrow> py_exc + 'v" where
  "dict_get d key dflt =
     (if \<not> hashable key then Inl TypeError
      else case key of
        PStr s \<Rightarrow> (case map_of d s of Some v \<Rightarrow> Inr v | None \<Rightarrow> Inr dflt)
      | _ \<Rightarrow> Inr dflt)"

text \<open>
  How a dict matches a key with one it holds: the same object, or an object equal for
  \<^verbatim>\<open>==\<close>. Numbers (bools included) are equal by value and strings by content. NaN is
  equal to no number, itself included, but a NaN key is found again all the same, as
  the same object: the values of the model carry no identity, and every NaN is taken to
  be one object, as are the \<^verbatim>\<open>NaN\<close> of the JSON decoder and \<^verbatim>\<open>math.nan\<close>.
\<close>

fun num_eq :: "pynum \<Rightarrow> pynum \<Rightarrow> bool" where
  "num_eq (NInt a) (NInt b) = (a = b)"
| "num_eq (NInt a) (NFloat (Fin q)) = (of_int a = q)"
| "num_eq (NFloat (Fin q)) (NInt b) = (q = of_int b)"
| "num_eq (NFloat x) (NFloat y) = (x = y)"
| "num_eq x y = False"

definition key_eq :: "pyval \<Rightarrow> pyval \<Rightarrow> bool" where
  "key_eq a b =
     (case (as_num a, as_num b) of
        (Some x, Some y) \<Rightarrow> num_eq x y
      | (None, None) \<Rightarrow> a = b
      | _ \<Rightarrow> False)"

text \<open>
  \<^verbatim>\<open>d[key] = value\<close> on a dict with arbitrary hashable keys: an entry whose key is equal
  keeps its place and its key object and takes the new value; a new key goes last.
\<close>

fun dict_set :: "(pyval \<times> pyval) list \<Rightarrow> pyval \<Rightarrow> pyval \<Rightarrow> (pyval \<times> pyval) list" where
  "dict_set [] key v = [(key, v)]"
| "dict_set ((k, w) # d) key v =
     (if key_eq k key then (k, v) # d else (k, w) # dict_set d key v)"

text \<open>The decimal digits of a natural number, most significant first.\<close>

function chiffres :: "int \<Rightarrow> string" where
  "chiffres n = (if n < 10 then [char_of (48 + n)]
                 else chiffres (n div 10) @ [char_of (48 + n mod 10)])"
  by pat_completeness auto
termination
  by (relation "measure nat") auto

declare chiffres.simps [simp del]

text \<open>
  Since Python 3.11 (and the security releases of 3.7 to 3.10) the conversion of an int
  to its decimal text raises \<^verbatim>\<open>ValueError\<close> when the int has more digits than
  \<^verbatim>\<open>sys.get_int_max_str_digits()\<close>, 4300 unless the interpreter is told otherwise.
  \<^verbatim>\<open>str()\<close>, \<^verbatim>\<open>repr()\<close>, \<^verbatim>\<open>format()\<close>, an f-string field and \<^verbatim>\<open>json.dumps\<close> all make
  that conversion, also for an int held in a list or in a dict. Nothing else makes the
  text of a JSON-derived value fail: \<^verbatim>\<open>json.dumps\<close> writes NaN and the infinities, and
  keys that are not strings, without complaint.
\<close>

definition MAX_STR_DIGITS :: nat where
  "MAX_STR_DIGITS = 4300"

definition trop_long :: "int \<Rightarrow> bool" where
  "trop_long n = (MAX_STR_DIGITS < length (chiffres \<bar>n\<bar>))"

fun convertible :: "pyval \<Rightarrow> bool" where
  "convertible (PInt n) = (\<not> trop_long n)"
| "convertible (PList xs) = list_all (\<lambda>b. b) (map convertible xs)"
| "convertible (PDict kvs) = list_all (\<lambda>b. b) (map (\<lambda>p. convertible (snd p)) kvs)"
| "convertible v = True"

text \<open>
  The conversion to text of an object that holds the values \<open>vs\<close>, by any of the
  functions above. The text is not kept: the result tells only whether the conversion
  returns or raises.
\<close>

definition en_texte :: "pyval list \<Rightarrow> py_exc + unit" where
  "en_texte vs = (if list_all convertible vs then Inr () else Inl ValueError)"

section \<open>The tools\<close>

text \<open>String constants of the source that are not ASCII, as UTF-8 bytes.\<close>

definition e_aigu :: string where
  "e_aigu = [CHR 0xC3, CHR 0xA9]"

definition e_circ :: string where
  "e_circ = [CHR 0xC3, CHR 0xAA]"

definition euro :: string where
  "euro = [CHR 0xE2, CHR 0x82, CHR 0xAC]"

definition fois :: string where
  "fois = [CHR 0xC3, CHR 0x97]"

text \<open>
  The session journal \<^verbatim>\<open>_journal_chantier\<close>: a module-level dict, here passed in and
  returned. Nothing checks the types of what a tool call stores, so keys and values
  are arbitrary values.
\<close>

type_synonym journal = "(pyval \<times> pyval) list"

type_synonym kwargs = "(string \<times> pyval) list"

text \<open>\<^verbatim>\<open>_DENSITES\<close>: the values are the float literals 1.8, 2.4, 1.0 and 1.6.\<close>

definition DENSITES :: "(string \<times> pyval) list" where
  "DENSITES =
     [(''terre'', PFloat (decimal 18 1)),
      (''beton'', PFloat (decimal 24 1)),
      (''eau'', PFloat (decimal 10 1)),
      (''gravier'', PFloat (decimal 16 1))]"

text \<open>\<^verbatim>\<open>_COUTS_RESEAU\<close>: each value is a list of two int literals, \<^verbatim>\<open>[min, max]\<close>.\<close>

definition COUTS_RESEAU :: "(string \<times> (int \<times> int)) list" where
  "COUTS_RESEAU =
     [(''eau_potable'', (150, 350)),
      (''assainissement'', (200, 500)),
      (''pluvial'', (180, 420)),
      (''telecom'', (80, 180))]"

text \<open>
  An f-string whose fields are rendered by \<^verbatim>\<open>str()\<close> is kept as its parts: the rendering
  of a float (its shortest decimal that reads back) is not modelled. That the fields can
  be rendered at all is checked with \<open>en_texte\<close> where the f-string is built.
\<close>

datatype fpart = Lit string | Champ pyval

record volume_resultat =
  volume_m3 :: pyval
  masse_t :: pyval
  materiau :: pyval
  dimensions :: "fpart list"

record cout_resultat =
  type_reseau :: pyval
  longueur_m :: pyval
  diametre_mm :: pyval
  cout_min_ht :: string
  cout_max_ht :: string
  note_ht :: string

record memo_resultat =
  status :: string
  cle :: pyval
  journal :: journal

definition calculer_volume ::
    "pyval \<Rightarrow> pyval \<Rightarrow> pyval \<Rightarrow> pyval \<Rightarrow> py_exc + volume_resultat" where
  "calculer_volume longueur largeur profondeur mat =
     then_res (py_mul longueur largeur) (\<lambda>lw.
     then_res (py_mul lw profondeur) (\<lambda>volume.
     then_res (dict_get DENSITES mat (PFloat (decimal 18 1))) (\<lambda>densite.
     then_res (py_mul volume densite) (\<lambda>masse.
     then_res (py_round_nd volume 2) (\<lambda>volume_r.
     then_res (py_round_nd masse 2) (\<lambda>masse_r.
     then_res (en_texte [longueur, largeur, profondeur]) (\<lambda>_.
       Inr \<lparr>volume_m3 = volume_r,
            masse_t = masse_r,
            materiau = mat,
            dimensions = [Champ longueur, Lit (''m '' @ fois @ '' ''), Champ largeur,
                          Lit (''m '' @ fois @ '' ''), Champ profondeur, Lit ''m'']\<rparr>)))))))"

text \<open>A comma after every third digit, on the digits least significant first.\<close>

fun grouper :: "string \<Rightarrow> string" where
  "grouper (a # b # c # d # r) = a # b # c # CHR '','' # grouper (d # r)"
| "grouper r = r"

text \<open>
  The format specification \<^verbatim>\<open>{n:,}\<close> of an int. The two ints that
  \<^verbatim>\<open>estimer_cout_reseau\<close> formats are each the \<^verbatim>\<open>round()\<close> of a finite float, so they have
  at most 309 digits and the conversion cannot raise.
\<close>

definition format_virgule :: "int \<Rightarrow> string" where
  "format_virgule n =
     (if n < 0 then ''-'' else []) @ rev (grouper (rev (chiffres \<bar>n\<bar>)))"

text \<open>\<^verbatim>\<open>s.replace(",", " ")\<close>.\<close>

definition replace_virgule :: "string \<Rightarrow> string" where
  "replace_virgule s = map (\<lambda>c. if c = CHR '','' then CHR '' '' else c) s"

definition estimer_cout_reseau :: "pyval \<Rightarrow> pyval \<Rightarrow> pyval \<Rightarrow> py_exc + cout_resultat" where
  "estimer_cout_reseau type_r longueur diametre =
     then_res (dict_get COUTS_RESEAU type_r (200, 500)) (\<lambda>fourchette.
     then_res (py_truediv diametre (PInt 200)) (\<lambda>quotient.
     then_res (math_sqrt quotient) (\<lambda>coeff_diam.
     then_res (py_mul (PInt (fst fourchette)) longueur) (\<lambda>a.
     then_res (py_mul a coeff_diam) (\<lambda>b.
     then_res (py_round b) (\<lambda>cout_min.
     then_res (py_mul (PInt (snd fourchette)) longueur) (\<lambda>c.
     then_res (py_mul c coeff_diam) (\<lambda>d.
     then_res (py_round d) (\<lambda>cout_max.
       Inr \<lparr>type_reseau = type_r,
            longueur_m = longueur,
            diametre_mm = diametre,
            cout_min_ht = replace_virgule (format_virgule cout_min @ '' '' @ euro @ ''HT''),
            cout_max_ht = replace_virgule (format_virgule cout_max @ '' '' @ euro @ ''HT''),
            note_ht = ''Fourniture et pose, hors VRD et d'' @ e_aigu @ ''viations''\<rparr>)))))))))"

text \<open>
  \<^verbatim>\<open>memo_chantier\<close> writes the global journal and returns it in its result: the model
  takes the journal and returns the new one beside the result, or beside the exception
  when the call raises. An unhashable key raises before the write; the f-string of the
  log line (line 196) renders the key after it.
\<close>

definition memo_chantier ::
    "journal \<Rightarrow> pyval \<Rightarrow> pyval \<Rightarrow> (py_exc \<times> journal) + (memo_resultat \<times> journal)" where
  "memo_chantier j key valeur =
     (if \<not> hashable key then Inl (TypeError, j)
      else let j' = dict_set j key valeur in
        case en_texte [key] of
          Inl e \<Rightarrow> Inl (e, j')
        | Inr _ \<Rightarrow>
            Inr (\<lparr>status = ''m'' @ e_aigu @ ''moris'' @ e_aigu, cle = key, journal = j'\<rparr>, j'))"

section \<open>The tool executor\<close>

text \<open>
  \<^verbatim>\<open>fn(**tool_input)\<close>: a keyword that is not a parameter raises \<^verbatim>\<open>TypeError\<close>, and so
  does a parameter with no default that gets no value.
\<close>

fun lier_args :: "(string \<times> pyval option) list \<Rightarrow> kwargs \<Rightarrow> py_exc + pyval list" where
  "lier_args [] kw = Inr []"
| "lier_args ((p, dflt) # ps) kw =
     (case (case map_of kw p of Some v \<Rightarrow> Some v | None \<Rightarrow> dflt) of
        None \<Rightarrow> Inl TypeError
      | Some v \<Rightarrow> then_res (lier_args ps kw) (\<lambda>vs. Inr (v # vs)))"

definition appel_kwargs :: "(string \<times> pyval option) list \<Rightarrow> kwargs \<Rightarrow> py_exc + pyval list" where
  "appel_kwargs params kw =
     (if list_ex (\<lambda>k. k \<notin> set (map fst params)) (map fst kw) then Inl TypeError
      else lier_args params kw)"

datatype resultat = Volume volume_resultat | Cout cout_resultat | Memo memo_resultat

text \<open>
  A tool called with keyword arguments, on the journal: it returns its result or raises,
  and either way leaves a journal.
\<close>

type_synonym outil = "journal \<Rightarrow> kwargs \<Rightarrow> (py_exc \<times> journal) + (resultat \<times> journal)"

definition outil_calculer_volume :: outil where
  "outil_calculer_volume j kw =
     (case then_res (appel_kwargs [(''longueur_m'', None), (''largeur_m'', None),
                                   (''profondeur_m'', None), (''materiau'', Some (PStr ''terre''))] kw)
             (\<lambda>args. calculer_volume (args ! 0) (args ! 1) (args ! 2) (args ! 3)) of
        Inl e \<Rightarrow> Inl (e, j)
      | Inr r \<Rightarrow> Inr (Volume r, j))"

definition outil_estimer_cout_reseau :: outil where
  "outil_estimer_cout_reseau j kw =
     (case then_res (appel_kwargs [(''type_reseau'', None), (''longueur_m'', None),
                                   (''diametre_mm'', Some (PInt 200))] kw)
             (\<lambda>args. estimer_cout_reseau (args ! 0) (args ! 1) (args ! 2)) of
        Inl e \<Rightarrow> Inl (e, j)
      | Inr r \<Rightarrow> Inr (Cout r, j))"

definition outil_memo_chantier :: outil where
  "outil_memo_chantier j kw =
     (case appel_kwargs [(''cle'', None), (''valeur'', None)] kw of
        Inl e \<Rightarrow> Inl (e, j)
      | Inr args \<Rightarrow>
          (case memo_chantier j (args ! 0) (args ! 1) of
             Inl x \<Rightarrow> Inl x
           | Inr (r, j') \<Rightarrow> Inr (Memo r, j')))"

text \<open>\<^verbatim>\<open>_TOOL_REGISTRY\<close>: tool name to Python function.\<close>

definition TOOL_REGISTRY :: "(string \<times> outil) list" where
  "TOOL_REGISTRY =
     [(''calculer_volume'', outil_calculer_volume),
      (''estimer_cout_reseau'', outil_estimer_cout_reseau),
      (''memo_chantier'', outil_memo_chantier)]"

text \<open>
  What \<^verbatim>\<open>executer_outil\<close> returns is the text \<^verbatim>\<open>json.dumps\<close> makes of a dict. The model
  keeps the dict that is serialised, one constructor for each of the three shapes:
  \<^item> \<open>Erreur_inconnu m\<close> is \<^verbatim>\<open>{"erreur": m}\<close>;
  \<^item> \<open>Erreur_outil e n i\<close> is \<^verbatim>\<open>{"erreur": str(e), "outil": n, "input": i}\<close>;
  \<^item> \<open>Resultat r\<close> is the dict the tool returned.
\<close>

datatype payload =
    Erreur_inconnu string
  | Erreur_outil py_exc string kwargs
  | Resultat resultat

text \<open>
  The values a result dict holds beside the strings its tool built, in the order of its
  keys; for the journal, each key and then its value.
\<close>

definition valeurs_journal :: "journal \<Rightarrow> pyval list" where
  "valeurs_journal j = concat (map (\<lambda>p. [fst p, snd p]) j)"

fun valeurs :: "resultat \<Rightarrow> pyval list" where
  "valeurs (Volume r) = [volume_m3 r, masse_t r, materiau r]"
| "valeurs (Cout r) = [type_reseau r, longueur_m r, diametre_mm r]"
| "valeurs (Memo r) = cle r # valeurs_journal (journal r)"

text \<open>
  The \<^verbatim>\<open>try\<close> block, lines 228 to 231: the call of the tool, the f-string of the log line,
  which renders the result, and \<^verbatim>\<open>json.dumps\<close> of the result. An exception of any of the
  three goes to the handler; the journal is then as the tool left it.
\<close>

definition bloc_try :: "outil \<Rightarrow> journal \<Rightarrow> kwargs \<Rightarrow> (py_exc \<times> journal) + (resultat \<times> journal)" where
  "bloc_try fn j tool_input =
     (case fn j tool_input of
        Inl x \<Rightarrow> Inl x
      | Inr (resultat, j') \<Rightarrow>
          (case then_res (en_texte (valeurs resultat)) (\<lambda>_. en_texte (valeurs resultat)) of
             Inl e \<Rightarrow> Inl (e, j')
           | Inr _ \<Rightarrow> Inr (resultat, j')))"

text \<open>
  \<^verbatim>\<open>executer_outil\<close>, lines 212 to 235. It returns a payload, or it raises: \<^verbatim>\<open>json.dumps\<close>
  of the error dict (line 235) stands in the handler, outside any \<^verbatim>\<open>try\<close>, and the error
  dict holds the input of the call. The journal is returned in both cases.
\<close>

definition executer_outil ::
    "journal \<Rightarrow> string \<Rightarrow> kwargs \<Rightarrow> (py_exc + payload) \<times> journal" where
  "executer_outil j tool_name tool_input =
     (case map_of TOOL_REGISTRY tool_name of
        None \<Rightarrow> (Inr (Erreur_inconnu (''Outil inconnu : '' @ tool_name)), j)
      | Some fn \<Rightarrow>
          (case bloc_try fn j tool_input of
             Inr (resultat, j') \<Rightarrow> (Inr (Resultat resultat), j')
           | Inl (e, j') \<Rightarrow>
               (case en_texte (map snd tool_input) of
                  Inl e' \<Rightarrow> (Inl e', j')
                | Inr _ \<Rightarrow> (Inr (Erreur_outil e tool_name tool_input), j'))))"

text \<open>
  In \<^verbatim>\<open>run_agent\<close> the input of a tool call is the dict that the client library decoded
  from the JSON text of the response, and the journal holds what such calls have
  written. The JSON decoder reads no int of more than \<open>MAX_STR_DIGITS\<close> digits, so these
  values can all be converted to text, the conversions of \<^verbatim>\<open>executer_outil\<close> return, and
  the call comes down to \<open>executer_outil_json\<close>: the payload of the result when the tool
  returns, the payload of the error when it raises. Section \<open>Failures of a tool call\<close>
  proves it: lemma \<open>executer_outil_decode\<close> for one call, lemma
  \<open>sequentiel_executer_outil\<close> for the calls of a whole tool-use turn.
\<close>

definition executer_outil_json :: "journal \<Rightarrow> string \<Rightarrow> kwargs \<Rightarrow> payload \<times> journal" where
  "executer_outil_json j tool_name tool_input =
     (case map_of TOOL_REGISTRY tool_name of
        None \<Rightarrow> (Erreur_inconnu (''Outil inconnu : '' @ tool_name), j)
      | Some fn \<Rightarrow>
          (case fn j tool_input of
             Inr (resultat, j') \<Rightarrow> (Resultat resultat, j')
           | Inl (e, j') \<Rightarrow> (Erreur_outil e tool_name tool_input, j')))"

section \<open>The agent loop\<close>

text \<open>
  A content block of a response: a text block (the only kind with a \<^verbatim>\<open>text\<close>
  attribute), a tool-use block with its id, tool name and input, or a block of another
  type.
\<close>

datatype block = Text_block string | Tool_use_block string string kwargs | Autre_block

record response =
  stop_reason :: string
  content :: "block list"

record tool_result =
  tool_use_id :: string
  tr_content :: payload

datatype contenu = Texte string | Blocs "block list" | Tool_results "tool_result list"

record message =
  role :: string
  msg_content :: contenu

text \<open>
  \<^verbatim>\<open>client.messages.create\<close> is the completion service. The model, the token limit, the
  system prompt and the tool catalog are the same in every request of a run, so the
  service is a function of the transcript it is sent: it returns a response or raises
  a transport-level error.
\<close>

datatype api_error = AuthenticationError | RateLimitError | Autre_erreur

type_synonym service = "message list \<Rightarrow> api_error + response"

text \<open>
  The local state of \<^verbatim>\<open>run_agent\<close> and the global journal. \<open>requetes\<close> is not a variable
  of the source: it logs the transcript of every request sent, in order.
\<close>

record etat =
  iteration :: int
  reponse_finale :: string
  messages :: "message list"
  journal_chantier :: journal
  requetes :: "message list list"

text \<open>Lines 318 to 321: the text of the first block that has one.\<close>

fun premier_texte :: "block list \<Rightarrow> string \<Rightarrow> string" where
  "premier_texte [] actuel = actuel"
| "premier_texte (Text_block t # bs) actuel = t"
| "premier_texte (b # bs) actuel = premier_texte bs actuel"

text \<open>
  Lines 345 to 362: the loop over the blocks of a tool-use response. The inputs of the
  blocks are decoded from JSON, so the call of \<^verbatim>\<open>executer_outil\<close> is \<open>executer_outil_json\<close>.
\<close>

fun executer_blocs :: "block list \<Rightarrow> tool_result list \<Rightarrow> journal \<Rightarrow> tool_result list \<times> journal" where
  "executer_blocs [] tool_results j = (tool_results, j)"
| "executer_blocs (Tool_use_block bid name inp # bs) tool_results j =
     (case executer_outil_json j name inp of
        (result_str, j') \<Rightarrow>
          executer_blocs bs (tool_results @ [\<lparr>tool_use_id = bid, tr_content = result_str\<rparr>]) j')"
| "executer_blocs (b # bs) tool_results j = executer_blocs bs tool_results j"

text \<open>The transcript after a tool-use response: lines 337 to 368.\<close>

definition apres_tool_use :: "response \<Rightarrow> etat \<Rightarrow> etat" where
  "apres_tool_use resp s =
     (case executer_blocs (content resp) [] (journal_chantier s) of
        (tool_results, j') \<Rightarrow>
          s\<lparr>messages := messages s @
               [\<lparr>role = ''assistant'', msg_content = Blocs (content resp)\<rparr>,
                \<lparr>role = ''user'', msg_content = Tool_results tool_results\<rparr>],
            journal_chantier := j'\<rparr>)"

text \<open>
  The \<^verbatim>\<open>while\<close> loop, lines 296 to 373. \<open>Inl\<close> is an error of the service leaving the
  loop as an exception; \<open>Inr\<close> is the state at the end of the loop. What the loop prints
  (the input of a tool call, its result, the journal at the end) is text of values
  decoded from JSON and of the journal, as in \<open>executer_outil_json\<close>.
\<close>

function boucle :: "service \<Rightarrow> int \<Rightarrow> etat \<Rightarrow> (api_error \<times> etat) + etat" where
  "boucle svc max_iterations s =
     (if iteration s < max_iterations then
        (let s1 = s\<lparr>iteration := iteration s + 1, requetes := requetes s @ [messages s]\<rparr> in
         case svc (messages s1) of
           Inl err \<Rightarrow> Inl (err, s1)
         | Inr resp \<Rightarrow>
             if stop_reason resp = ''end_turn'' then
               Inr (s1\<lparr>reponse_finale := premier_texte (content resp) (reponse_finale s1)\<rparr>)
             else if stop_reason resp = ''tool_use'' then
               boucle svc max_iterations (apres_tool_use resp s1)
             else Inr s1)
      else Inr s)"
  by pat_completeness auto
termination
  by (relation "measure (\<lambda>(svc, max_iterations, s). nat (max_iterations - iteration s))")
     (auto simp: apres_tool_use_def split: prod.splits)

declare boucle.simps [simp del]

definition SENTINELLE :: string where
  "SENTINELLE = ''Agent arr'' @ e_circ @ ''t'' @ e_aigu @ '' : limite d'' @ [CHR 0x27]
     @ ''it'' @ e_aigu @ ''rations atteinte.''"

definition etat_initial :: "string \<Rightarrow> journal \<Rightarrow> etat" where
  "etat_initial task j0 =
     \<lparr>iteration = 0, reponse_finale = [],
      messages = [\<lparr>role = ''user'', msg_content = Texte task\<rparr>],
      journal_chantier = j0, requetes = []\<rparr>"

text \<open>
  \<^verbatim>\<open>run_agent\<close> returns \<open>reponse_finale\<close> of the state it ends in; the model returns the
  whole state, so that the iteration count and the requests sent can be read too.
\<close>

definition run_agent :: "service \<Rightarrow> string \<Rightarrow> int \<Rightarrow> journal \<Rightarrow> (api_error \<times> etat) + etat" where
  "run_agent svc task max_iterations j0 =
     (case boucle svc max_iterations (etat_initial task j0) of
        Inl x \<Rightarrow> Inl x
      | Inr s \<Rightarrow>
          Inr (if max_iterations \<le> iteration s \<and> reponse_finale s = []
               then s\<lparr>reponse_finale := SENTINELLE\<rparr> else s))"

section \<open>Notions used to state the properties\<close>

text \<open>The state a run of the loop ends in, whether it returns or raises.\<close>

definition etat_final :: "(api_error \<times> etat) + etat \<Rightarrow> etat" where
  "etat_final x = (case x of Inl (e, t) \<Rightarrow> t | Inr t \<Rightarrow> t)"

text \<open>The tool invocations of a response: id, tool name and input, in the order listed.\<close>

fun invocations :: "block list \<Rightarrow> (string \<times> string \<times> kwargs) list" where
  "invocations [] = []"
| "invocations (Tool_use_block bid name inp # bs) = (bid, name, inp) # invocations bs"
| "invocations (b # bs) = invocations bs"

text \<open>
  What the specification asks of a tool-use turn, in its words: the invocations are
  executed one after the other, in order, each on the journal left by the one before,
  and each gives one result carrying its id. The loop of the source is compared with it.
\<close>

fun sequentiel :: "(string \<times> string \<times> kwargs) list \<Rightarrow> journal \<Rightarrow> tool_result list \<times> journal" where
  "sequentiel [] j = ([], j)"
| "sequentiel ((bid, name, inp) # invs) j =
     (case executer_outil_json j name inp of
        (p, j1) \<Rightarrow>
          (case sequentiel invs j1 of
             (rs, j2) \<Rightarrow> (\<lparr>tool_use_id = bid, tr_content = p\<rparr> # rs, j2)))"

text \<open>
  The invocations of a tool-use turn whose inputs hold only values that can be converted
  to text, as inputs decoded from JSON do.
\<close>

definition entrees_convertibles :: "(string \<times> string \<times> kwargs) list \<Rightarrow> bool" where
  "entrees_convertibles invs = list_all (\<lambda>i. list_all convertible (map snd (snd (snd i)))) invs"

text \<open>A payload with an \<^verbatim>\<open>erreur\<close> key.\<close>

fun est_erreur :: "payload \<Rightarrow> bool" where
  "est_erreur (Erreur_inconnu m) = True"
| "est_erreur (Erreur_outil e n i) = True"
| "est_erreur (Resultat r) = False"

text \<open>
  An association list that is a Python dict: its keys are hashable and no two of them
  match as keys. The empty journal is one, and the tools keep it one.
\<close>

fun dict_ok :: "journal \<Rightarrow> bool" where
  "dict_ok [] = True"
| "dict_ok ((k, v) # d) = (hashable k \<and> \<not> list_ex (\<lambda>p. key_eq (fst p) k) d \<and> dict_ok d)"

text \<open>
  The density and the unit-cost range the specification names for a material and for
  a network kind: the value of the table, or the default.
\<close>

definition densite_de :: "string \<Rightarrow> pyfloat" where
  "densite_de m =
     (if m = ''terre'' then decimal 18 1 else if m = ''beton'' then decimal 24 1
      else if m = ''eau'' then decimal 10 1 else if m = ''gravier'' then decimal 16 1
      else decimal 18 1)"

definition fourchette_de :: "string \<Rightarrow> int \<times> int" where
  "fourchette_de k =
     (if k = ''eau_potable'' then (150, 350) else if k = ''assainissement'' then (200, 500)
      else if k = ''pluvial'' then (180, 420) else if k = ''telecom'' then (80, 180)
      else (200, 500))"

text \<open>
  An int or a finite float of magnitude at most \<open>B\<close>, and an int or a finite float that
  is not negative.
\<close>

definition nombre_borne :: "rat \<Rightarrow> pyval \<Rightarrow> bool" where
  "nombre_borne B v =
     ((\<exists>a. v = PInt a \<and> \<bar>of_int a\<bar> \<le> B) \<or> (\<exists>q. v = PFloat (Fin q) \<and> \<bar>q\<bar> \<le> B))"

definition nombre_positif :: "pyval \<Rightarrow> bool" where
  "nombre_positif v = ((\<exists>a. v = PInt a \<and> 0 \<le> a) \<or> (\<exists>q. v = PFloat (Fin q) \<and> 0 \<le> q))"

text \<open>
  A service for the examples: it answers every request with the same tool-use response,
  which writes the journal, holds a text block, and asks for a tool that does not exist.
\<close>

definition service_exemple :: service where
  "service_exemple m =
     Inr \<lparr>stop_reason = ''tool_use'',
          content = [Tool_use_block ''id1'' ''memo_chantier''
                       [(''cle'', PStr ''volume''), (''valeur'', PStr ''80'')],
                     Text_block ''note'',
                     Tool_use_block ''id2'' ''Memo_chantier''
                       [(''cle'', PStr ''volume''), (''valeur'', PStr ''81'')]]\<rparr>"

section \<open>The iteration budget\<close>

lemma boucle_fin: "\<not> iteration s < N \<Longrightarrow> boucle svc N s = Inr s"
  by (simp add: boucle.simps)

lemma apres_tool_use_iteration [simp]: "iteration (apres_tool_use r s) = iteration s"
  by (simp add: apres_tool_use_def split: prod.splits)

lemma apres_tool_use_reponse [simp]: "reponse_finale (apres_tool_use r s) = reponse_finale s"
  by (simp add: apres_tool_use_def split: prod.splits)

lemma apres_tool_use_requetes [simp]: "requetes (apres_tool_use r s) = requetes s"
  by (simp add: apres_tool_use_def split: prod.splits)

lemma boucle_tool_use_step:
  assumes "iteration s < N" and "svc (messages s) = Inr r" and "stop_reason r = ''tool_use''"
  shows "boucle svc N s =
         boucle svc N (apres_tool_use r (s\<lparr>iteration := iteration s + 1,
                                           requetes := requetes s @ [messages s]\<rparr>))"
  using assms by (subst boucle.simps) (simp add: Let_def)

lemma boucle_autre_step:
  assumes "iteration s < N" and "svc (messages s) = Inr r"
    and "stop_reason r \<noteq> ''tool_use''" and "stop_reason r \<noteq> ''end_turn''"
  shows "boucle svc N s = Inr (s\<lparr>iteration := iteration s + 1,
                                  requetes := requetes s @ [messages s]\<rparr>)"
  using assms by (subst boucle.simps) (simp add: Let_def)

lemma boucle_tool_use_only:
  "\<forall>m. \<exists>r. svc m = Inr r \<and> stop_reason r = ''tool_use'' \<Longrightarrow> iteration s \<le> N \<Longrightarrow>
     \<exists>t. boucle svc N s = Inr t \<and> iteration t = N \<and> reponse_finale t = reponse_finale s
        \<and> length (requetes t) = length (requetes s) + nat (N - iteration s)"
proof (induction svc N s rule: boucle.induct)
  case (1 svc N s)
  show ?case
  proof (cases "iteration s < N")
    case False
    with "1.prems" have "iteration s = N" by simp
    with False show ?thesis by (simp add: boucle_fin)
  next
    case True
    from "1.prems"(1) obtain r where r: "svc (messages s) = Inr r" "stop_reason r = ''tool_use''"
      by blast
    let ?s1 = "s\<lparr>iteration := iteration s + 1, requetes := requetes s @ [messages s]\<rparr>"
    let ?s2 = "apres_tool_use r ?s1"
    have step: "boucle svc N s = boucle svc N ?s2"
      using True r by (rule boucle_tool_use_step)
    have "\<exists>t. boucle svc N ?s2 = Inr t \<and> iteration t = N \<and> reponse_finale t = reponse_finale ?s2
            \<and> length (requetes t) = length (requetes ?s2) + nat (N - iteration ?s2)"
      using True r "1.prems"(2) by (intro "1.IH"[OF True refl _ _ _ "1.prems"(1)]) auto
    then show ?thesis using True by (auto simp: step)
  qed
qed

text \<open>
  Claim C1. For every maximum-iteration count \<open>N \<ge> 1\<close>, when the completion service
  answers every request with a tool-use response (never a natural completion, never an
  unexpected signal, never an error), \<^verbatim>\<open>run_agent\<close> returns: it has sent exactly \<open>N\<close>
  requests, its iteration counter is exactly \<open>N\<close>, and the deliverable is the forced-stop
  sentinel.
\<close>

theorem run_agent_budget_epuise:
  assumes "1 \<le> N" and "\<forall>m. \<exists>r. svc m = Inr r \<and> stop_reason r = ''tool_use''"
  shows "\<exists>s. run_agent svc task N j0 = Inr s \<and> reponse_finale s = SENTINELLE
            \<and> iteration s = N \<and> length (requetes s) = nat N"
proof -
  have "iteration (etat_initial task j0) \<le> N"
    using assms(1) by (simp add: etat_initial_def)
  from boucle_tool_use_only[OF assms(2) this]
  obtain t where t: "boucle svc N (etat_initial task j0) = Inr t" "iteration t = N"
      "reponse_finale t = []" "length (requetes t) = nat N"
    by (auto simp: etat_initial_def)
  then show ?thesis by (simp add: run_agent_def)
qed

theorem run_agent_budget_epuise_witness:
  "(1::int) \<le> 3 \<and>
   (\<exists>s. run_agent (\<lambda>m. Inr \<lparr>stop_reason = ''tool_use'', content = []\<rparr>) ''mission'' 3 [] = Inr s
        \<and> reponse_finale s = SENTINELLE \<and> iteration s = 3 \<and> length (requetes s) = 3)"
  using run_agent_budget_epuise[of 3 "\<lambda>m. Inr \<lparr>stop_reason = ''tool_use'', content = []\<rparr>" "''mission''" "[]"]
  by simp

text \<open>
  Claim C10. For every maximum-iteration count \<open>N \<le> 0\<close>, \<^verbatim>\<open>run_agent\<close> sends no request
  and returns the forced-stop sentinel, which is not the empty deliverable.
\<close>

theorem run_agent_sans_budget:
  assumes "N \<le> 0"
  shows "\<exists>s. run_agent svc task N j0 = Inr s \<and> requetes s = []
            \<and> reponse_finale s = SENTINELLE \<and> reponse_finale s \<noteq> [] \<and> iteration s = 0"
  using assms by (simp add: run_agent_def boucle_fin etat_initial_def SENTINELLE_def)

theorem run_agent_sans_budget_witness:
  "(- 2 :: int) \<le> 0 \<and>
   (\<exists>s. run_agent (\<lambda>m. Inl RateLimitError) ''mission'' (- 2) [] = Inr s \<and> requetes s = []
        \<and> reponse_finale s = SENTINELLE \<and> reponse_finale s \<noteq> [] \<and> iteration s = 0)"
  using run_agent_sans_budget[of "- 2" "\<lambda>m. Inl RateLimitError" "''mission''" "[]"]
  by simp

text \<open>
  Claim C2 says that an unexpected termination signal ends the loop with an empty
  deliverable, also on the last permitted iteration. With a budget of one iteration and
  a service that answers \<^verbatim>\<open>max_tokens\<close>, the loop stops after its single request, but the
  test of line 376 (\<^verbatim>\<open>iteration >= max_iterations and not reponse_finale\<close>) then holds
  and the deliverable is the sentinel of the exhausted budget.
\<close>

theorem arret_inattendu_derniere_iteration:
  "run_agent (\<lambda>m. Inr \<lparr>stop_reason = ''max_tokens'', content = []\<rparr>) ''mission'' 1 [] =
     Inr \<lparr>iteration = 1, reponse_finale = SENTINELLE,
          messages = [\<lparr>role = ''user'', msg_content = Texte ''mission''\<rparr>],
          journal_chantier = [],
          requetes = [[\<lparr>role = ''user'', msg_content = Texte ''mission''\<rparr>]]\<rparr>"
  by (simp add: run_agent_def etat_initial_def boucle.simps)

text \<open>
  On an earlier iteration the same signal ends the loop with the deliverable left
  empty, and no further request.
\<close>

lemma arret_inattendu_avant:
  assumes "1 < N" and "svc [\<lparr>role = ''user'', msg_content = Texte task\<rparr>] = Inr r"
    and "stop_reason r \<noteq> ''tool_use''" and "stop_reason r \<noteq> ''end_turn''"
  shows "\<exists>s. run_agent svc task N j0 = Inr s \<and> reponse_finale s = []
            \<and> iteration s = 1 \<and> length (requetes s) = 1"
proof -
  have "boucle svc N (etat_initial task j0) =
        Inr ((etat_initial task j0)\<lparr>iteration := iteration (etat_initial task j0) + 1,
              requetes := requetes (etat_initial task j0) @ [messages (etat_initial task j0)]\<rparr>)"
    using assms by (intro boucle_autre_step) (auto simp: etat_initial_def)
  then show ?thesis
    using assms(1) by (simp add: run_agent_def etat_initial_def)
qed

section \<open>Tool results of a tool-use turn\<close>

lemma sequentiel_Cons:
  "sequentiel ((bid, name, inp) # invs) j =
     (\<lparr>tool_use_id = bid, tr_content = fst (executer_outil_json j name inp)\<rparr>
        # fst (sequentiel invs (snd (executer_outil_json j name inp))),
      snd (sequentiel invs (snd (executer_outil_json j name inp))))"
  by (simp split: prod.splits)

declare sequentiel.simps(2) [simp del]

lemma executer_blocs_acc:
  "executer_blocs bs acc j =
     (acc @ fst (sequentiel (invocations bs) j), snd (sequentiel (invocations bs) j))"
  by (induction bs acc j rule: executer_blocs.induct)
     (simp_all add: sequentiel_Cons split: prod.splits)

lemma executer_blocs_sequentiel:
  "executer_blocs bs [] j = sequentiel (invocations bs) j"
  by (simp add: executer_blocs_acc)

lemma sequentiel_ids: "map tool_use_id (fst (sequentiel invs j)) = map fst invs"
proof (induction invs arbitrary: j)
  case (Cons a invs)
  then show ?case by (cases a) (simp add: sequentiel_Cons)
qed simp

lemma sequentiel_append:
  "sequentiel (xs @ ys) j =
     (fst (sequentiel xs j) @ fst (sequentiel ys (snd (sequentiel xs j))),
      snd (sequentiel ys (snd (sequentiel xs j))))"
proof (induction xs arbitrary: j)
  case (Cons a xs)
  then show ?case by (cases a) (simp add: sequentiel_Cons)
qed simp

lemma sequentiel_nth:
  assumes "k < length invs"
  shows "fst (sequentiel invs j) ! k =
           \<lparr>tool_use_id = fst (invs ! k),
            tr_content = fst (executer_outil_json (snd (sequentiel (take k invs) j))
                               (fst (snd (invs ! k))) (snd (snd (invs ! k))))\<rparr>"
proof -
  obtain bid name inp where k: "invs ! k = (bid, name, inp)" by (cases "invs ! k")
  have "invs = take k invs @ (bid, name, inp) # drop (Suc k) invs"
    using assms k by (metis id_take_nth_drop)
  then have "sequentiel invs j = sequentiel (take k invs @ (bid, name, inp) # drop (Suc k) invs) j"
    by simp
  also have "fst \<dots> ! k = \<lparr>tool_use_id = bid,
       tr_content = fst (executer_outil_json (snd (sequentiel (take k invs) j)) name inp)\<rparr>"
  proof -
    have len: "length (fst (sequentiel (take k invs) j)) = k"
      using assms by (metis sequentiel_ids length_map length_take min.absorb2 less_imp_le)
    show ?thesis
      by (simp add: sequentiel_append sequentiel_Cons nth_append len)
  qed
  finally show ?thesis by (simp add: k)
qed

lemma etat_final_requetes:
  "\<exists>suite. requetes (etat_final (boucle svc N s)) =
     requetes s @ (if iteration s < N then messages s # suite else [])"
proof (induction svc N s rule: boucle.induct)
  case (1 svc N s)
  let ?s1 = "s\<lparr>iteration := iteration s + 1, requetes := requetes s @ [messages s]\<rparr>"
  show ?case
  proof (cases "iteration s < N")
    case False
    then show ?thesis by (simp add: boucle.simps etat_final_def)
  next
    case True
    show ?thesis
    proof (cases "svc (messages s)")
      case (Inl err)
      with True show ?thesis by (subst boucle.simps) (simp add: etat_final_def Let_def)
    next
      case (Inr r)
      show ?thesis
      proof (cases "stop_reason r = ''tool_use''")
        case False
        with True Inr show ?thesis by (subst boucle.simps) (simp add: etat_final_def Let_def)
      next
        case tu: True
        have step: "boucle svc N s = boucle svc N (apres_tool_use r ?s1)"
          using True Inr tu by (rule boucle_tool_use_step)
        from "1.IH"[OF True refl _ _ tu, of ] Inr tu
        obtain suite where "requetes (etat_final (boucle svc N (apres_tool_use r ?s1))) =
           requetes (apres_tool_use r ?s1) @
             (if iteration (apres_tool_use r ?s1) < N
              then messages (apres_tool_use r ?s1) # suite else [])"
          by auto
        then show ?thesis using True by (simp add: step)
      qed
    qed
  qed
qed

lemma invocations_mem:
  "Tool_use_block bid name inp \<in> set bs \<Longrightarrow> (bid, name, inp) \<in> set (invocations bs)"
  by (induction bs rule: invocations.induct) auto

lemma executer_outil_json_inconnu:
  "map_of TOOL_REGISTRY name = None \<Longrightarrow>
     executer_outil_json j name inp = (Erreur_inconnu (''Outil inconnu : '' @ name), j)"
  by (simp add: executer_outil_json_def)

lemma executer_outil_inconnu:
  "map_of TOOL_REGISTRY name = None \<Longrightarrow>
     executer_outil j name inp = (Inr (Erreur_inconnu (''Outil inconnu : '' @ name)), j)"
  by (simp add: executer_outil_def)

lemma registry_None:
  "name \<notin> {''calculer_volume'', ''estimer_cout_reseau'', ''memo_chantier''} \<Longrightarrow>
     map_of TOOL_REGISTRY name = None"
  by (simp add: TOOL_REGISTRY_def)

lemma sequentiel_inconnu_mem:
  "(bid, name, inp) \<in> set invs \<Longrightarrow> map_of TOOL_REGISTRY name = None \<Longrightarrow>
     \<lparr>tool_use_id = bid, tr_content = Erreur_inconnu (''Outil inconnu : '' @ name)\<rparr>
       \<in> set (fst (sequentiel invs j))"
proof (induction invs arbitrary: j)
  case (Cons a invs)
  then show ?case
    by (cases a) (auto simp: sequentiel_Cons executer_outil_json_inconnu)
qed simp

lemma boucle_tool_use_suite:
  assumes "iteration s < N" and "svc (messages s) = Inr r" and "stop_reason r = ''tool_use''"
  shows "\<exists>s'. boucle svc N s = boucle svc N s'
            \<and> iteration s' = iteration s + 1
            \<and> reponse_finale s' = reponse_finale s
            \<and> requetes s' = requetes s @ [messages s]
            \<and> messages s' = messages s @
                 [\<lparr>role = ''assistant'', msg_content = Blocs (content r)\<rparr>,
                  \<lparr>role = ''user'', msg_content =
                     Tool_results (fst (sequentiel (invocations (content r)) (journal_chantier s)))\<rparr>]
            \<and> journal_chantier s' =
                 snd (sequentiel (invocations (content r)) (journal_chantier s))
            \<and> (\<exists>suite. requetes (etat_final (boucle svc N s)) =
                 requetes s @ messages s #
                   (if iteration s + 1 < N then messages s' # suite else []))"
proof -
  let ?s1 = "s\<lparr>iteration := iteration s + 1, requetes := requetes s @ [messages s]\<rparr>"
  let ?s' = "apres_tool_use r ?s1"
  have step: "boucle svc N s = boucle svc N ?s'"
    using assms by (rule boucle_tool_use_step)
  obtain suite where "requetes (etat_final (boucle svc N ?s')) =
     requetes ?s' @ (if iteration ?s' < N then messages ?s' # suite else [])"
    using etat_final_requetes[of svc N ?s'] by blast
  then have "requetes (etat_final (boucle svc N s)) =
     requetes s @ messages s # (if iteration s + 1 < N then messages ?s' # suite else [])"
    by (simp add: step)
  moreover have "messages ?s' = messages s @
       [\<lparr>role = ''assistant'', msg_content = Blocs (content r)\<rparr>,
        \<lparr>role = ''user'', msg_content =
                     Tool_results (fst (sequentiel (invocations (content r)) (journal_chantier s)))\<rparr>]"
    by (simp add: apres_tool_use_def executer_blocs_sequentiel split: prod.splits)
  moreover have "journal_chantier ?s' =
       snd (sequentiel (invocations (content r)) (journal_chantier s))"
    by (simp add: apres_tool_use_def executer_blocs_sequentiel split: prod.splits)
  ultimately show ?thesis
    using step by (intro exI[of _ ?s']) auto
qed

text \<open>
  Claim C3. When the response to a request is a tool-use response, the loop goes on from
  a state whose transcript is the old one followed by the assistant turn and by one
  user turn holding all the tool results, and no request is sent in between: if the
  budget allows another request, it is the next one logged and it carries that
  transcript. The results are those of the sequential execution of the invocations of
  the response: as many results as invocations, the same ids in the same order, the
  \<open>k\<close>-th result computed on the journal left by the first \<open>k\<close> invocations.
\<close>

theorem tool_use_un_resultat_par_invocation:
  assumes "iteration s < N" and "svc (messages s) = Inr r" and "stop_reason r = ''tool_use''"
  shows "(\<exists>s'. boucle svc N s = boucle svc N s'
            \<and> iteration s' = iteration s + 1
            \<and> requetes s' = requetes s @ [messages s]
            \<and> messages s' = messages s @
                 [\<lparr>role = ''assistant'', msg_content = Blocs (content r)\<rparr>,
                  \<lparr>role = ''user'', msg_content =
                     Tool_results (fst (sequentiel (invocations (content r)) (journal_chantier s)))\<rparr>]
            \<and> journal_chantier s' =
                 snd (sequentiel (invocations (content r)) (journal_chantier s))
            \<and> (\<exists>suite. requetes (etat_final (boucle svc N s)) =
                 requetes s @ messages s #
                   (if iteration s + 1 < N then messages s' # suite else [])))
       \<and> length (fst (sequentiel (invocations (content r)) (journal_chantier s)))
           = length (invocations (content r))
       \<and> map tool_use_id (fst (sequentiel (invocations (content r)) (journal_chantier s)))
           = map fst (invocations (content r))
       \<and> (\<forall>k < length (invocations (content r)).
            fst (sequentiel (invocations (content r)) (journal_chantier s)) ! k =
              \<lparr>tool_use_id = fst (invocations (content r) ! k),
               tr_content = fst (executer_outil_json
                  (snd (sequentiel (take k (invocations (content r))) (journal_chantier s)))
                  (fst (snd (invocations (content r) ! k)))
                  (snd (snd (invocations (content r) ! k))))\<rparr>)"
proof -
  let ?invs = "invocations (content r)"
  let ?j = "journal_chantier s"
  have len: "length (fst (sequentiel ?invs ?j)) = length ?invs"
    using sequentiel_ids[of ?invs ?j] by (metis length_map)
  have loop: "\<exists>s'. boucle svc N s = boucle svc N s'
            \<and> iteration s' = iteration s + 1
            \<and> requetes s' = requetes s @ [messages s]
            \<and> messages s' = messages s @
                 [\<lparr>role = ''assistant'', msg_content = Blocs (content r)\<rparr>,
                  \<lparr>role = ''user'', msg_content = Tool_results (fst (sequentiel ?invs ?j))\<rparr>]
            \<and> journal_chantier s' = snd (sequentiel ?invs ?j)
            \<and> (\<exists>suite. requetes (etat_final (boucle svc N s)) =
                 requetes s @ messages s #
                   (if iteration s + 1 < N then messages s' # suite else []))"
    using boucle_tool_use_suite[of s N svc r] assms
    by blast
  have nth: "\<forall>k < length ?invs.
            fst (sequentiel ?invs ?j) ! k =
              \<lparr>tool_use_id = fst (?invs ! k),
               tr_content = fst (executer_outil_json (snd (sequentiel (take k ?invs) ?j))
                  (fst (snd (?invs ! k))) (snd (snd (?invs ! k))))\<rparr>"
    using sequentiel_nth by blast
  show ?thesis
    using loop len sequentiel_ids[of ?invs ?j] nth by (intro conjI)
qed

text \<open>The theorem at \<open>service_exemple\<close>, with a budget of two iterations.\<close>

theorem tool_use_un_resultat_par_invocation_witness:
  "\<exists>s'. boucle service_exemple 2 (etat_initial ''mission'' []) = boucle service_exemple 2 s'
      \<and> iteration s' = 1
      \<and> requetes s' = [[\<lparr>role = ''user'', msg_content = Texte ''mission''\<rparr>]]
      \<and> messages s' =
          [\<lparr>role = ''user'', msg_content = Texte ''mission''\<rparr>,
           \<lparr>role = ''assistant'', msg_content = Blocs
              [Tool_use_block ''id1'' ''memo_chantier''
                 [(''cle'', PStr ''volume''), (''valeur'', PStr ''80'')],
               Text_block ''note'',
               Tool_use_block ''id2'' ''Memo_chantier''
                 [(''cle'', PStr ''volume''), (''valeur'', PStr ''81'')]]\<rparr>,
           \<lparr>role = ''user'', msg_content = Tool_results
              [\<lparr>tool_use_id = ''id1'', tr_content = Resultat (Memo
                  \<lparr>status = ''m'' @ e_aigu @ ''moris'' @ e_aigu, cle = PStr ''volume'',
                   journal = [(PStr ''volume'', PStr ''80'')]\<rparr>)\<rparr>,
               \<lparr>tool_use_id = ''id2'',
                tr_content = Erreur_inconnu ''Outil inconnu : Memo_chantier''\<rparr>]\<rparr>]
      \<and> journal_chantier s' = [(PStr ''volume'', PStr ''80'')]"
  using tool_use_un_resultat_par_invocation[of "etat_initial ''mission'' []" 2 service_exemple
      "\<lparr>stop_reason = ''tool_use'',
          content = [Tool_use_block ''id1'' ''memo_chantier''
                       [(''cle'', PStr ''volume''), (''valeur'', PStr ''80'')],
                     Text_block ''note'',
                     Tool_use_block ''id2'' ''Memo_chantier''
                       [(''cle'', PStr ''volume''), (''valeur'', PStr ''81'')]]\<rparr>"]
  by (simp add: service_exemple_def etat_initial_def sequentiel_Cons executer_outil_json_def
        TOOL_REGISTRY_def outil_memo_chantier_def appel_kwargs_def then_res_def
        memo_chantier_def en_texte_def Let_def) blast

text \<open>
  Claim C5. A tool name that is none of the three registered names (compared as
  strings, so case matters) makes \<^verbatim>\<open>executer_outil\<close> return the payload
  \<^verbatim>\<open>{"erreur": "Outil inconnu : <name>"}\<close> and leave the journal as it is: it does not
  raise, whatever the input and the journal, and \<open>executer_outil_json\<close> agrees. In the loop,
  a tool-use response that asks for such a tool does not end the run: the payload is one
  of the tool results of the user turn appended to the transcript, the deliverable is
  left as it was, and the loop goes on with the next iteration, sending the next request
  if the budget allows one.
\<close>

theorem outil_inconnu_resultat_normal:
  assumes "name \<notin> {''calculer_volume'', ''estimer_cout_reseau'', ''memo_chantier''}"
  shows "executer_outil j name inp = (Inr (Erreur_inconnu (''Outil inconnu : '' @ name)), j)
       \<and> executer_outil_json j name inp = (Erreur_inconnu (''Outil inconnu : '' @ name), j)
       \<and> (iteration s < N \<and> svc (messages s) = Inr r \<and> stop_reason r = ''tool_use''
            \<and> Tool_use_block bid name inp \<in> set (content r) \<longrightarrow>
          (\<exists>s' res. boucle svc N s = boucle svc N s'
             \<and> iteration s' = iteration s + 1
             \<and> reponse_finale s' = reponse_finale s
             \<and> messages s' = messages s @
                  [\<lparr>role = ''assistant'', msg_content = Blocs (content r)\<rparr>,
                   \<lparr>role = ''user'', msg_content = Tool_results res\<rparr>]
             \<and> \<lparr>tool_use_id = bid,
                 tr_content = Erreur_inconnu (''Outil inconnu : '' @ name)\<rparr> \<in> set res
             \<and> (\<exists>suite. requetes (etat_final (boucle svc N s)) =
                  requetes s @ messages s #
                    (if iteration s + 1 < N then messages s' # suite else []))))"
proof (intro conjI impI)
  have none: "map_of TOOL_REGISTRY name = None"
    using assms by (rule registry_None)
  show "executer_outil j name inp = (Inr (Erreur_inconnu (''Outil inconnu : '' @ name)), j)"
    using none by (rule executer_outil_inconnu)
  show "executer_outil_json j name inp = (Erreur_inconnu (''Outil inconnu : '' @ name), j)"
    using none by (rule executer_outil_json_inconnu)
  assume h: "iteration s < N \<and> svc (messages s) = Inr r \<and> stop_reason r = ''tool_use''
            \<and> Tool_use_block bid name inp \<in> set (content r)"
  let ?res = "fst (sequentiel (invocations (content r)) (journal_chantier s))"
  have mem: "\<lparr>tool_use_id = bid, tr_content = Erreur_inconnu (''Outil inconnu : '' @ name)\<rparr>
               \<in> set ?res"
    using h none by (intro sequentiel_inconnu_mem invocations_mem) auto
  from boucle_tool_use_suite[of s N svc r] h
  obtain s' where s': "boucle svc N s = boucle svc N s'"
      "iteration s' = iteration s + 1" "reponse_finale s' = reponse_finale s"
      "messages s' = messages s @
         [\<lparr>role = ''assistant'', msg_content = Blocs (content r)\<rparr>,
          \<lparr>role = ''user'', msg_content = Tool_results ?res\<rparr>]"
      "\<exists>suite. requetes (etat_final (boucle svc N s)) =
          requetes s @ messages s # (if iteration s + 1 < N then messages s' # suite else [])"
    by blast
  show "\<exists>s' res. boucle svc N s = boucle svc N s'
             \<and> iteration s' = iteration s + 1
             \<and> reponse_finale s' = reponse_finale s
             \<and> messages s' = messages s @
                  [\<lparr>role = ''assistant'', msg_content = Blocs (content r)\<rparr>,
                   \<lparr>role = ''user'', msg_content = Tool_results res\<rparr>]
             \<and> \<lparr>tool_use_id = bid,
                 tr_content = Erreur_inconnu (''Outil inconnu : '' @ name)\<rparr> \<in> set res
             \<and> (\<exists>suite. requetes (etat_final (boucle svc N s)) =
                  requetes s @ messages s #
                    (if iteration s + 1 < N then messages s' # suite else []))"
    using s' mem by (intro exI[of _ s'] exI[of _ ?res]) simp
qed

text \<open>The theorem at \<open>service_exemple\<close>, whose second invocation names \<^verbatim>\<open>Memo_chantier\<close>.\<close>

theorem outil_inconnu_resultat_normal_witness:
  "executer_outil [] ''Memo_chantier'' [(''cle'', PStr ''volume''), (''valeur'', PStr ''81'')] =
     (Inr (Erreur_inconnu ''Outil inconnu : Memo_chantier''), [])
   \<and> (\<exists>s' res. boucle service_exemple 2 (etat_initial ''mission'' []) =
                   boucle service_exemple 2 s'
          \<and> iteration s' = 1
          \<and> reponse_finale s' = []
          \<and> last (messages s') = \<lparr>role = ''user'', msg_content = Tool_results res\<rparr>
          \<and> \<lparr>tool_use_id = ''id2'',
              tr_content = Erreur_inconnu ''Outil inconnu : Memo_chantier''\<rparr> \<in> set res)"
proof -
  let ?inp = "[(''cle'', PStr ''volume''), (''valeur'', PStr ''81'')]"
  let ?r = "\<lparr>stop_reason = ''tool_use'',
            content = [Tool_use_block ''id1'' ''memo_chantier''
                         [(''cle'', PStr ''volume''), (''valeur'', PStr ''80'')],
                       Text_block ''note'',
                       Tool_use_block ''id2'' ''Memo_chantier'' ?inp]\<rparr>"
  have n: "''Memo_chantier'' \<notin> {''calculer_volume'', ''estimer_cout_reseau'', ''memo_chantier''}"
    by simp
  note th = outil_inconnu_resultat_normal[OF n, of "[]" ?inp "etat_initial ''mission'' []" 2
      service_exemple ?r "''id2''"]
  have h: "iteration (etat_initial ''mission'' []) < 2
        \<and> service_exemple (messages (etat_initial ''mission'' [])) = Inr ?r
        \<and> stop_reason ?r = ''tool_use''
        \<and> Tool_use_block ''id2'' ''Memo_chantier'' ?inp \<in> set (content ?r)"
    by (simp add: service_exemple_def etat_initial_def)
  from th[THEN conjunct2, THEN conjunct2, rule_format, OF h] obtain s' res where
    s': "boucle service_exemple 2 (etat_initial ''mission'' []) = boucle service_exemple 2 s'"
        "iteration s' = iteration (etat_initial ''mission'' []) + 1"
        "reponse_finale s' = reponse_finale (etat_initial ''mission'' [])"
        "messages s' = messages (etat_initial ''mission'' []) @
           [\<lparr>role = ''assistant'', msg_content = Blocs (content ?r)\<rparr>,
            \<lparr>role = ''user'', msg_content = Tool_results res\<rparr>]"
        "\<lparr>tool_use_id = ''id2'',
          tr_content = Erreur_inconnu (''Outil inconnu : '' @ ''Memo_chantier'')\<rparr> \<in> set res"
    by blast
  have "iteration s' = 1" "reponse_finale s' = []"
       "last (messages s') = \<lparr>role = ''user'', msg_content = Tool_results res\<rparr>"
       "\<lparr>tool_use_id = ''id2'',
         tr_content = Erreur_inconnu ''Outil inconnu : Memo_chantier''\<rparr> \<in> set res"
    using s'(2-5) by (simp_all add: etat_initial_def)
  then show ?thesis
    using th[THEN conjunct1] s'(1) by auto
qed

section \<open>The journal\<close>

lemma num_eq_sym: "num_eq x y = num_eq y x"
proof (cases x)
  case (NInt a)
  show ?thesis
  proof (cases y)
    case (NFloat g)
    then show ?thesis using NInt by (cases g) auto
  qed (simp add: NInt eq_commute)
next
  case (NFloat f)
  show ?thesis
  proof (cases y)
    case (NInt b)
    then show ?thesis using NFloat by (cases f) auto
  next
    case g: (NFloat g)
    then show ?thesis using NFloat by (cases f; cases g) auto
  qed
qed

lemma key_eq_sym: "key_eq a b = key_eq b a"
  by (auto simp: key_eq_def num_eq_sym split: option.splits)

lemma key_eq_PStr [simp]: "key_eq k' (PStr k) = (k' = PStr k)"
  by (cases k') (auto simp: key_eq_def)

lemma key_eq_PStr_left [simp]: "key_eq (PStr k) k' = (k' = PStr k)"
  by (subst key_eq_sym) simp

lemma dict_set_autres:
  "filter (\<lambda>p. fst p \<noteq> PStr k) (dict_set j (PStr k) v) = filter (\<lambda>p. fst p \<noteq> PStr k) j"
  by (induction j) auto

lemma dict_set_cle:
  "dict_ok j \<Longrightarrow> filter (\<lambda>p. fst p = PStr k) (dict_set j (PStr k) v) = [(PStr k, v)]"
proof (induction j)
  case (Cons a j)
  obtain k' w where a: "a = (k', w)" by (cases a)
  show ?case
  proof (cases "k' = PStr k")
    case True
    have "filter (\<lambda>p. fst p = PStr k) j = []"
      using Cons.prems a True by (auto simp: list_ex_iff filter_empty_conv)
    then show ?thesis using a True by simp
  next
    case False
    then show ?thesis using Cons a by simp
  qed
qed simp

lemma dict_set_keys:
  "list_ex (\<lambda>p. key_eq (fst p) k0) (dict_set j key v) =
     (list_ex (\<lambda>p. key_eq (fst p) k0) j \<or> (\<not> list_ex (\<lambda>p. key_eq (fst p) key) j \<and> key_eq key k0))"
  by (induction j key v rule: dict_set.induct) auto

lemma dict_set_ok: "hashable key \<Longrightarrow> dict_ok j \<Longrightarrow> dict_ok (dict_set j key v)"
proof (induction j)
  case (Cons a j)
  obtain k' w where a: "a = (k', w)" by (cases a)
  show ?case
  proof (cases "key_eq k' key")
    case True
    then show ?thesis using Cons.prems a by simp
  next
    case False
    then have "\<not> key_eq key k'" by (simp add: key_eq_sym)
    then show ?thesis using Cons a False by (simp add: dict_set_keys)
  qed
qed simp

lemma dict_set_deux_fois:
  "length (dict_set (dict_set j (PStr k) v) (PStr k) v2) = length (dict_set j (PStr k) v)"
  by (induction j) auto

text \<open>
  Claim C9. On a journal that is a dict, \<^verbatim>\<open>memo_chantier\<close> with a string key and any
  value returns, its result holds the journal as it is after the write, and the journal
  then has exactly one entry for the key, holding the value, while all the other entries
  are the same, in the same order. A second write under the same key leaves again one
  entry for the key, holding the second value, the other entries and the number of
  entries unchanged.
\<close>

theorem memo_chantier_ecrit:
  assumes "dict_ok j"
  shows "\<exists>r j'. memo_chantier j (PStr k) v = Inr (r, j')
           \<and> journal r = j' \<and> cle r = PStr k \<and> dict_ok j'
           \<and> filter (\<lambda>p. fst p = PStr k) j' = [(PStr k, v)]
           \<and> filter (\<lambda>p. fst p \<noteq> PStr k) j' = filter (\<lambda>p. fst p \<noteq> PStr k) j
           \<and> (\<forall>v2. \<exists>r2 j2. memo_chantier j' (PStr k) v2 = Inr (r2, j2)
                 \<and> journal r2 = j2
                 \<and> filter (\<lambda>p. fst p = PStr k) j2 = [(PStr k, v2)]
                 \<and> filter (\<lambda>p. fst p \<noteq> PStr k) j2 = filter (\<lambda>p. fst p \<noteq> PStr k) j
                 \<and> length j2 = length j')"
proof -
  let ?j' = "dict_set j (PStr k) v"
  have ok: "dict_ok ?j'" using assms by (simp add: dict_set_ok)
  show ?thesis
    using assms ok
    by (simp add: memo_chantier_def Let_def en_texte_def dict_set_cle dict_set_autres
        dict_set_deux_fois)
qed

text \<open>The theorem on a journal of two entries, overwriting the first.\<close>

theorem memo_chantier_ecrit_witness:
  "dict_ok [(PStr ''volume'', PStr ''80''), (PStr ''cout'', PStr ''15000'')]
   \<and> (\<exists>r j'. memo_chantier [(PStr ''volume'', PStr ''80''), (PStr ''cout'', PStr ''15000'')]
                (PStr ''volume'') (PStr ''81'') = Inr (r, j')
        \<and> journal r = j'
        \<and> j' = [(PStr ''volume'', PStr ''81''), (PStr ''cout'', PStr ''15000'')])"
  using memo_chantier_ecrit[of "[(PStr ''volume'', PStr ''80''), (PStr ''cout'', PStr ''15000'')]"
      "''volume''" "PStr ''81''"]
  by (simp add: memo_chantier_def Let_def en_texte_def list_ex_iff)

lemma dict_ok_vide: "dict_ok []"
  by simp

lemma outil_dict_ok:
  assumes "map_of TOOL_REGISTRY name = Some fn" and "dict_ok j"
  shows "dict_ok (case fn j inp of Inl (e, j') \<Rightarrow> j' | Inr (r, j') \<Rightarrow> j')"
proof -
  have "fn = outil_calculer_volume \<or> fn = outil_estimer_cout_reseau \<or> fn = outil_memo_chantier"
    using assms(1) by (auto simp: TOOL_REGISTRY_def split: if_splits)
  then show ?thesis
    using assms(2)
    by (auto simp: outil_calculer_volume_def outil_estimer_cout_reseau_def
          outil_memo_chantier_def memo_chantier_def Let_def dict_set_ok
        split: sum.splits if_splits prod.splits)
qed

lemma executer_outil_json_dict_ok:
  assumes "dict_ok j"
  shows "dict_ok (snd (executer_outil_json j name inp))"
proof (cases "map_of TOOL_REGISTRY name")
  case None
  then show ?thesis using assms by (simp add: executer_outil_json_def)
next
  case (Some fn)
  from outil_dict_ok[OF Some assms, where inp = inp]
  show ?thesis
    using Some by (auto simp: executer_outil_json_def split: sum.splits prod.splits)
qed

lemma executer_outil_dict_ok:
  assumes "dict_ok j"
  shows "dict_ok (snd (executer_outil j name inp))"
proof (cases "map_of TOOL_REGISTRY name")
  case None
  then show ?thesis using assms by (simp add: executer_outil_def)
next
  case (Some fn)
  from outil_dict_ok[OF Some assms, where inp = inp]
  show ?thesis
    using Some
    by (auto simp: executer_outil_def bloc_try_def split: sum.splits prod.splits)
qed

section \<open>Conversions to text\<close>

lemma then_res_Inl [simp]: "then_res (Inl e) f = Inl e"
  by (simp add: then_res_def)

lemma then_res_Inr [simp]: "then_res (Inr x) f = f x"
  by (simp add: then_res_def)

lemma chiffres_length:
  "0 \<le> n \<Longrightarrow> 0 < d \<Longrightarrow> (d < length (chiffres n)) = (10 ^ d \<le> n)"
proof (induction d arbitrary: n)
  case 0
  then show ?case by simp
next
  case (Suc d)
  show ?case
  proof (cases "n < 10")
    case True
    have "(10::int) * 1 \<le> 10 * 10 ^ d" by (intro mult_left_mono) simp_all
    then have "n < 10 * 10 ^ d" using True by linarith
    then show ?thesis using True by (subst chiffres.simps) simp
  next
    case False
    have len: "length (chiffres n) = Suc (length (chiffres (n div 10)))"
      using False by (subst chiffres.simps) simp
    show ?thesis
    proof (cases "d = 0")
      case True
      have "0 < length (chiffres (n div 10))" by (subst chiffres.simps) simp
      then show ?thesis using True False len by simp
    next
      case d: False
      have "(d < length (chiffres (n div 10))) = (10 ^ d \<le> n div 10)"
        using Suc.IH[of "n div 10"] Suc.prems d by simp
      also have "\<dots> = (10 ^ Suc d \<le> n)"
      proof -
        have "\<And>x::int. (x \<le> n div 10) = (10 * x \<le> n)" by presburger
        then show ?thesis by simp
      qed
      finally show ?thesis using len by simp
    qed
  qed
qed

text \<open>An int is too long when its magnitude reaches \<open>10 ^ MAX_STR_DIGITS\<close>.\<close>

lemma trop_long_iff: "trop_long n = (10 ^ MAX_STR_DIGITS \<le> \<bar>n\<bar>)"
  unfolding trop_long_def by (rule chiffres_length) (simp_all add: MAX_STR_DIGITS_def)

lemma trop_long_max: "trop_long (10 ^ MAX_STR_DIGITS)"
  unfolding trop_long_iff by (rule abs_ge_self)

lemma court: "\<bar>n\<bar> < 2 ^ 1024 \<Longrightarrow> \<not> trop_long n"
proof -
  assume a: "\<bar>n\<bar> < 2 ^ 1024"
  have "(2::int) ^ 1024 \<le> 10 ^ 1024" by (rule power_mono) simp_all
  also have "\<dots> \<le> 10 ^ MAX_STR_DIGITS"
    by (rule power_increasing) (simp_all add: MAX_STR_DIGITS_def)
  finally show ?thesis using a by (simp add: trop_long_iff)
qed

lemma convertible_PList [simp]: "convertible (PList xs) = list_all convertible xs"
  by (simp add: list_all_iff)

lemma convertible_PDict [simp]:
  "convertible (PDict kvs) = list_all convertible (map snd kvs)"
  by (simp add: list_all_iff)

declare convertible.simps(2,3) [simp del]

lemma nombre_borne_convertible:
  assumes "nombre_borne B v" and "B < 2 ^ 1024"
  shows "convertible v"
proof -
  have "\<not> trop_long a" if "\<bar>of_int a :: rat\<bar> \<le> B" for a :: int
  proof -
    have "(of_int \<bar>a\<bar> :: rat) < of_int (2 ^ 1024)" using that assms(2) by simp
    then have "\<bar>a\<bar> < 2 ^ 1024" by (simp only: of_int_less_iff)
    then show ?thesis by (rule court)
  qed
  then show ?thesis
    using assms(1) by (auto simp: nombre_borne_def)
qed

lemma en_texte_bornes:
  assumes "nombre_borne (10 ^ 15) l" and "nombre_borne (10 ^ 15) w" and "nombre_borne (10 ^ 15) d"
  shows "en_texte [l, w, d] = Inr ()"
proof -
  have "(10::rat) ^ 15 < 2 ^ 1024" by simp
  then show ?thesis
    using assms by (simp add: en_texte_def nombre_borne_convertible)
qed

lemma en_texte_floats: "en_texte [PFloat a, PFloat b, PFloat c] = Inr ()"
  by (simp add: en_texte_def)

section \<open>Lookups with a default\<close>

lemma then_res_eq_Inr: "then_res m f = Inr r \<longleftrightarrow> (\<exists>x. m = Inr x \<and> f x = Inr r)"
  by (cases m) simp_all

lemma then_res_eq_Inl:
  "then_res m f = Inl e \<longleftrightarrow> m = Inl e \<or> (\<exists>x. m = Inr x \<and> f x = Inl e)"
  by (cases m) simp_all

lemma densites_get:
  "dict_get DENSITES (PStr m) (PFloat (decimal 18 1)) = Inr (PFloat (densite_de m))"
  by (simp add: dict_get_def DENSITES_def densite_de_def)

lemma py_round_nd_float: "\<exists>y. py_round_nd (PFloat x) nd = Inr (PFloat y)"
  by (cases x) (simp_all add: py_round_nd_def)

lemma py_mul_floats: "py_mul (PFloat a) (PFloat b) = Inr (PFloat (float_mul a b))"
  by (simp add: py_mul_def)

lemma py_mul_ints: "py_mul (PInt a) (PInt b) = Inr (PInt (a * b))"
  by (simp add: py_mul_def)

lemma py_round_nd_int: "py_round_nd (PInt n) nd = Inr (PInt n)"
  by (simp add: py_round_nd_def)

lemma calculer_volume_floats:
  "\<exists>r. calculer_volume (PFloat a) (PFloat b) (PFloat c) (PStr m) = Inr r"
proof -
  obtain v where v: "py_round_nd (PFloat (float_mul (float_mul a b) c)) 2 = Inr (PFloat v)"
    using py_round_nd_float by blast
  obtain ms where ms:
    "py_round_nd (PFloat (float_mul (float_mul (float_mul a b) c) (densite_de m))) 2
       = Inr (PFloat ms)"
    using py_round_nd_float by blast
  show ?thesis
    unfolding calculer_volume_def densites_get
    by (simp add: py_mul_floats v ms en_texte_floats)
qed

lemma calculer_volume_inconnu:
  assumes "m \<notin> {''terre'', ''beton'', ''eau'', ''gravier''}"
  shows "calculer_volume l w d (PStr m) =
           map_sum id (\<lambda>r. r\<lparr>materiau := PStr m\<rparr>) (calculer_volume l w d (PStr ''terre''))"
proof -
  have "densite_de m = densite_de ''terre''"
    using assms by (simp add: densite_de_def)
  then show ?thesis
    unfolding calculer_volume_def densites_get
    by (simp add: then_res_def split: sum.splits)
qed

lemma calculer_volume_formule:
  assumes "calculer_volume l w d (PStr m) = Inr r"
  shows "(\<exists>volume masse.
            then_res (py_mul l w) (\<lambda>lw. py_mul lw d) = Inr volume
          \<and> py_mul volume (PFloat (densite_de m)) = Inr masse
          \<and> py_round_nd volume 2 = Inr (volume_m3 r)
          \<and> py_round_nd masse 2 = Inr (masse_t r))
        \<and> materiau r = PStr m"
  using assms unfolding calculer_volume_def densites_get
  by (auto simp: then_res_eq_Inr)

lemma calculer_volume_ints:
  assumes "calculer_volume (PInt x) (PInt y) (PInt z) (PStr m) = Inr r"
  shows "volume_m3 r = PInt (x * y * z)"
  using calculer_volume_formule[OF assms]
  by (auto simp: py_mul_ints py_round_nd_int)

lemma calculer_volume_fins:
  assumes "calculer_volume (PFloat (Fin a)) (PFloat (Fin b)) (PFloat (Fin c)) (PStr m) = Inr r"
  shows "volume_m3 r =
           (case float_mul (fl (a * b)) (Fin c) of
              Fin v \<Rightarrow> PFloat (fl (of_int (round_half_even (v * 10 ^ 2)) / 10 ^ 2))
            | x \<Rightarrow> PFloat x)"
proof -
  from calculer_volume_formule[OF assms]
  have "py_round_nd (PFloat (float_mul (fl (a * b)) (Fin c))) 2 = Inr (volume_m3 r)"
    by (auto simp: py_mul_floats)
  then show ?thesis
    by (cases "float_mul (fl (a * b)) (Fin c)") (simp_all add: py_round_nd_def)
qed

lemma exemple_beton:
  "map_sum id (\<lambda>r. (volume_m3 r, masse_t r))
     (calculer_volume (PInt 10) (PInt 4) (PInt 2) (PStr ''beton'')) = Inr (PInt 80, PFloat (Fin 192))"
  by code_simp

lemma exemple_inconnu:
  "map_sum id (\<lambda>r. (volume_m3 r, masse_t r))
     (calculer_volume (PInt 10) (PInt 4) (PInt 2) (PStr ''unknown'')) = Inr (PInt 80, PFloat (Fin 144))"
  by code_simp

section \<open>Finite results of the float operations\<close>

lemma pow2_powi: "pow2 e = 2 powi e"
  by (simp add: pow2_def power_int_def field_simps)

lemma pow2_pos: "0 < pow2 e"
  by (simp add: pow2_powi)

lemma pow2_mono: "a \<le> b \<Longrightarrow> pow2 a \<le> pow2 b"
  by (simp add: pow2_powi power_int_increasing)

lemma pow2_strict_mono: "a < b \<Longrightarrow> pow2 a < pow2 b"
  by (simp add: pow2_powi power_int_strict_increasing)

lemma ilog2_le:
  assumes "q \<noteq> 0"
  shows "pow2 (ilog2 q) \<le> \<bar>q\<bar>"
proof (cases "1 \<le> \<bar>q\<bar>")
  case True
  let ?m = "\<lfloor>\<bar>q\<bar>\<rfloor>"
  have m: "0 < ?m" using True by linarith
  then have b: "1 \<le> bitlen ?m"
    using bitlen_eq_zero_iff[of ?m] bitlen_nonneg[of ?m] by linarith
  have "(2::int) ^ nat (bitlen ?m - 1) \<le> ?m"
    using bitlen_bounds[OF m] by simp
  then have "(2::rat) ^ nat (bitlen ?m - 1) \<le> \<bar>q\<bar>"
    by (simp add: le_floor_iff)
  then show ?thesis
    using True b by (simp add: ilog2_def pow2_def)
next
  case False
  then have a: "0 < \<bar>q\<bar>" "\<bar>q\<bar> < 1" using assms by auto
  let ?c = "\<lceil>1 / \<bar>q\<bar>\<rceil>"
  have inv: "1 < 1 / \<bar>q\<bar>" using a by (simp add: field_simps)
  then have c: "0 < ?c - 1" by linarith
  then have b: "1 \<le> bitlen (?c - 1)"
    using bitlen_eq_zero_iff[of "?c - 1"] bitlen_nonneg[of "?c - 1"] by linarith
  have "?c - 1 < 2 ^ nat (bitlen (?c - 1))"
    using bitlen_bounds[OF c] by simp
  then have "?c \<le> 2 ^ nat (bitlen (?c - 1))" by linarith
  then have "1 / \<bar>q\<bar> \<le> 2 ^ nat (bitlen (?c - 1))"
    by (simp add: ceiling_le_iff)
  then have "1 / 2 ^ nat (bitlen (?c - 1)) \<le> \<bar>q\<bar>"
    using a by (simp add: field_simps)
  then show ?thesis
    using False b by (simp add: ilog2_def pow2_def)
qed

lemma rhe_bounds: "\<bar>of_int (round_half_even x) - x\<bar> \<le> 1 / 2"
proof -
  have "of_int \<lfloor>x\<rfloor> \<le> x" "x < of_int \<lfloor>x\<rfloor> + 1" by linarith+
  then show ?thesis
    by (auto simp: round_half_even_def Let_def)
qed

lemma rhe_nonneg: "0 \<le> x \<Longrightarrow> 0 \<le> round_half_even x"
  by (auto simp: round_half_even_def Let_def)

lemma rhe_le: "round_half_even x \<le> \<lfloor>x\<rfloor> + 1"
  by (auto simp: round_half_even_def Let_def)

lemma rhe_neg:
  assumes x: "x \<le> - 1"
  shows "round_half_even x \<le> - 1"
proof (cases "\<lfloor>x\<rfloor> \<le> - 2")
  case True
  then show ?thesis using rhe_le[of x] by linarith
next
  case False
  then have "\<lfloor>x\<rfloor> = - 1" using x by linarith
  moreover from this have "x = - 1" using x by linarith
  ultimately show ?thesis by (simp add: round_half_even_def Let_def)
qed

lemma ulp_le:
  assumes "q \<noteq> 0"
  shows "pow2 (max (ilog2 q) (- 1022) - 52) \<le> max \<bar>q\<bar> (1 / 200)"
proof (cases "- 1022 \<le> ilog2 q")
  case True
  have "pow2 (ilog2 q - 52) \<le> pow2 (ilog2 q)" by (rule pow2_mono) simp
  also have "\<dots> \<le> \<bar>q\<bar>" using assms by (rule ilog2_le)
  finally show ?thesis using True by (simp add: max_def)
next
  case False
  have "pow2 (- 1074) \<le> 1 / 200" by (simp add: pow2_def)
  then show ?thesis using False by (simp add: max_def)
qed

lemma scale_err:
  fixes m q u :: rat
  assumes "0 < u" and "\<bar>m - q / u\<bar> \<le> 1 / 2"
  shows "\<bar>m * u - q\<bar> \<le> u / 2"
proof -
  have "m * u - q = (m - q / u) * u"
    using assms(1) by (simp add: field_simps)
  then have "\<bar>m * u - q\<bar> = \<bar>m - q / u\<bar> * u"
    using assms(1) by (simp add: abs_mult)
  also have "\<dots> \<le> 1 / 2 * u"
    using assms by (intro mult_right_mono) auto
  finally show ?thesis by simp
qed

lemma fl_finite:
  assumes "\<bar>q\<bar> \<le> 2 ^ 1022"
  shows "\<exists>r. fl q = Fin r \<and> \<bar>r\<bar> \<le> 2 * \<bar>q\<bar> + 1 \<and> (0 \<le> q \<longrightarrow> 0 \<le> r)"
proof (cases "q = 0")
  case True
  then show ?thesis by (simp add: fl_def)
next
  case False
  let ?e = "max (ilog2 q) (- 1022)"
  let ?u = "pow2 (?e - 52)"
  let ?m = "round_half_even (q / ?u)"
  have u: "0 < ?u" by (rule pow2_pos)
  have "pow2 (ilog2 q) \<le> pow2 1022"
    using ilog2_le[OF False] assms by (simp add: pow2_def)
  then have "ilog2 q \<le> 1022"
    using pow2_strict_mono[of 1022 "ilog2 q"] by linarith
  then have e: "(1023 < ?e) = False" "(?e = 1023) = False" by simp_all
  have fl: "fl q = Fin (of_int ?m * ?u)"
    by (simp only: fl_def Let_def False e if_False simp_thms)
  have "\<bar>of_int ?m * ?u - q\<bar> \<le> ?u / 2"
    using u rhe_bounds by (rule scale_err)
  moreover have "?u \<le> \<bar>q\<bar> + 1"
    using ulp_le[OF False] by linarith
  ultimately have bound: "\<bar>of_int ?m * ?u\<bar> \<le> 2 * \<bar>q\<bar> + 1" by linarith
  have "0 \<le> q \<longrightarrow> 0 \<le> of_int ?m * ?u"
    using u rhe_nonneg[of "q / ?u"] by (auto intro!: mult_nonneg_nonneg)
  then show ?thesis using fl bound by simp
qed

lemma fl_neg:
  assumes "q \<le> - (1 / 200)"
  shows "fl q = NInf \<or> (\<exists>r. fl q = Fin r \<and> r < 0)"
proof -
  from assms have nz: "q \<noteq> 0" and a: "\<bar>q\<bar> = - q" by auto
  let ?e = "max (ilog2 q) (- 1022)"
  let ?u = "pow2 (?e - 52)"
  let ?m = "round_half_even (q / ?u)"
  have u: "0 < ?u" by (rule pow2_pos)
  have "max \<bar>q\<bar> (1 / 200) = - q" using assms a by (simp add: max_def)
  then have "?u \<le> - q" using ulp_le[OF nz] by simp
  then have "q / ?u \<le> - 1" using u by (simp add: field_simps)
  then have "?m \<le> - 1" by (rule rhe_neg)
  then have "(of_int ?m :: rat) \<le> - 1" by (metis of_int_le_iff of_int_minus of_int_1)
  then have "of_int ?m * ?u < 0" using u by (simp add: mult_neg_pos)
  then show ?thesis using nz assms by (auto simp: fl_def Let_def)
qed

lemma isqrt_sq: "0 \<le> n \<Longrightarrow> 0 \<le> isqrt n \<and> isqrt n * isqrt n \<le> n"
proof (induction n rule: isqrt.induct)
  case (1 n)
  show ?case
  proof (cases "n < 2")
    case True
    then have "isqrt n = n" by (subst isqrt.simps) simp
    moreover have "n = 0 \<or> n = 1" using True "1.prems" by linarith
    ultimately show ?thesis by auto
  next
    case False
    from "1.IH"[OF False] "1.prems"
    have ih: "0 \<le> isqrt (n div 4)" "isqrt (n div 4) * isqrt (n div 4) \<le> n div 4" by auto
    then have "(2 * isqrt (n div 4)) * (2 * isqrt (n div 4)) \<le> n" by linarith
    moreover have "isqrt n = (if (2 * isqrt (n div 4) + 1) * (2 * isqrt (n div 4) + 1) \<le> n
                     then 2 * isqrt (n div 4) + 1 else 2 * isqrt (n div 4))"
      using False by (subst isqrt.simps) (simp add: Let_def)
    ultimately show ?thesis
      using ih(1) by (auto split: if_splits)
  qed
qed

lemma sq_le_imp_le:
  fixes t q :: rat
  assumes "0 \<le> t" and "t * t \<le> q"
  shows "t \<le> q + 1"
proof (cases "t \<le> 1")
  case True
  have "0 \<le> q" using assms(2) zero_le_square[of t] by linarith
  then show ?thesis using True by linarith
next
  case False
  then have "t * 1 \<le> t * t" using assms(1) by (intro mult_left_mono) auto
  then show ?thesis using assms(2) by linarith
qed

lemma sqrt_rat_finite:
  assumes "0 < q" and "q \<le> 2 ^ 1000"
  shows "\<exists>r. sqrt_rat q = Fin r \<and> 0 \<le> r \<and> r \<le> 2 * q + 5"
proof -
  define k where "k = nat (max 0 (55 - ilog2 q div 2))"
  define x where "x = q * 4 ^ k"
  define s where "s = isqrt \<lfloor>x\<rfloor>"
  define p where "p = (if of_int (s * s) = x then of_int s else of_int s + 1 / 2 :: rat)"
  define t where "t = (of_int s :: rat) / 2 ^ k"
  have x: "0 < x" using assms(1) by (simp add: x_def)
  then have "0 \<le> \<lfloor>x\<rfloor>" by simp
  from isqrt_sq[OF this] have s: "0 \<le> s" "s * s \<le> \<lfloor>x\<rfloor>" by (simp_all add: s_def)
  then have "(of_int (s * s) :: rat) \<le> x" by (simp add: le_floor_iff)
  then have "(of_int s :: rat) * of_int s \<le> q * 4 ^ k" by (simp add: x_def)
  then have "(of_int s :: rat) * of_int s / 4 ^ k \<le> q"
    by (simp add: field_simps)
  moreover have "t * t = (of_int s :: rat) * of_int s / 4 ^ k"
  proof -
    have "(4::rat) ^ k = 2 ^ k * 2 ^ k"
      by (metis mult_2 numeral_Bit0 power_mult_distrib numeral_times_numeral
          semiring_norm(11) semiring_norm(12) semiring_norm(13) one_add_one mult.commute)
    then show ?thesis by (simp add: t_def)
  qed
  ultimately have tt: "t * t \<le> q" by simp
  have t0: "0 \<le> t" using s(1) by (simp add: t_def)
  have t: "t \<le> q + 1" using t0 tt by (rule sq_le_imp_le)
  have half: "(1 / 2 :: rat) / 2 ^ k \<le> 1 / 2"
    by (simp add: field_simps)
  have pk: "p / 2 ^ k = t \<or> p / 2 ^ k = t + (1 / 2) / 2 ^ k"
    by (simp add: p_def t_def add_divide_distrib)
  have half0: "(0::rat) \<le> (1 / 2) / 2 ^ k" by simp
  have p0: "0 \<le> p / 2 ^ k" using pk t0 half0 by (elim disjE) linarith+
  have p1: "p / 2 ^ k \<le> q + 2" using pk t half by (elim disjE) linarith+
  have "\<bar>p / 2 ^ k\<bar> \<le> 2 ^ 1022"
  proof -
    have "(2::rat) ^ 1000 + 2 \<le> 2 ^ 1022" by simp
    then show ?thesis using p0 p1 assms(2) by linarith
  qed
  from fl_finite[OF this] obtain r where r: "fl (p / 2 ^ k) = Fin r"
      "\<bar>r\<bar> \<le> 2 * \<bar>p / 2 ^ k\<bar> + 1" "0 \<le> r"
    using p0 by blast
  have "sqrt_rat q = fl (p / 2 ^ k)"
    by (simp add: sqrt_rat_def Let_def k_def x_def s_def p_def)
  then show ?thesis using r p0 p1 by (intro exI[of _ r]) auto
qed

lemma fl_200: "fl 200 = Fin 200"
  by code_simp

lemma float_of_int_borne:
  assumes "\<bar>of_int a\<bar> \<le> B" and "B \<le> 2 ^ 1022"
  shows "\<exists>r. float_of_int a = Inr (Fin r) \<and> \<bar>r\<bar> \<le> 2 * B + 1"
proof -
  have "\<bar>(of_int a :: rat)\<bar> \<le> 2 ^ 1022" using assms by linarith
  from fl_finite[OF this] obtain r where "fl (of_int a) = Fin r" "\<bar>r\<bar> \<le> 2 * \<bar>of_int a\<bar> + 1"
    by blast
  then show ?thesis using assms(1) by (auto simp: float_of_int_def)
qed

lemma nombre_borne_nonneg: "nombre_borne B v \<Longrightarrow> 0 \<le> B"
  by (auto simp: nombre_borne_def)

lemma nombre_borne_mono: "nombre_borne B v \<Longrightarrow> B \<le> C \<Longrightarrow> nombre_borne C v"
  by (auto simp: nombre_borne_def)

lemma py_mul_borne:
  assumes u: "nombre_borne X u" and v: "nombre_borne Y v"
    and small: "(2 * X + 1) * (2 * Y + 1) \<le> 2 ^ 1022"
  shows "\<exists>w. py_mul u v = Inr w \<and> nombre_borne (2 * ((2 * X + 1) * (2 * Y + 1)) + 1) w"
proof -
  have X: "0 \<le> X" and Y: "0 \<le> Y"
    using u v by (auto dest: nombre_borne_nonneg)
  have XY: "X * Y \<le> (2 * X + 1) * (2 * Y + 1)"
    using X Y by (intro mult_mono) auto
  have X1: "2 * X + 1 \<le> (2 * X + 1) * (2 * Y + 1)"
    using mult_left_mono[of 1 "2 * Y + 1" "2 * X + 1"] X Y by simp
  have Y1: "2 * Y + 1 \<le> (2 * X + 1) * (2 * Y + 1)"
    using mult_right_mono[of 1 "2 * X + 1" "2 * Y + 1"] X Y by simp
  have "X \<le> 2 * X + 1" using X by simp
  also note X1
  also note small
  finally have Xs: "X \<le> 2 ^ 1022" .
  have "Y \<le> 2 * Y + 1" using Y by simp
  also note Y1
  also note small
  finally have Ys: "Y \<le> 2 ^ 1022" .
  have prod: "\<bar>a * b\<bar> \<le> (2 * X + 1) * (2 * Y + 1)"
    if "\<bar>a\<bar> \<le> 2 * X + 1" "\<bar>b\<bar> \<le> 2 * Y + 1" for a b :: rat
    using that by (simp add: abs_mult mult_mono)
  have flprod: "\<exists>r. fl (a * b) = Fin r \<and> \<bar>r\<bar> \<le> 2 * ((2 * X + 1) * (2 * Y + 1)) + 1"
    if "\<bar>a\<bar> \<le> 2 * X + 1" "\<bar>b\<bar> \<le> 2 * Y + 1" for a b :: rat
  proof -
    have "\<bar>a * b\<bar> \<le> 2 ^ 1022" using prod[OF that] small by linarith
    from fl_finite[OF this] obtain r where "fl (a * b) = Fin r" "\<bar>r\<bar> \<le> 2 * \<bar>a * b\<bar> + 1"
      by blast
    then show ?thesis using prod[OF that] by (intro exI[of _ r]) auto
  qed
  consider (ii) a b where "u = PInt a" "\<bar>of_int a :: rat\<bar> \<le> X" "v = PInt b" "\<bar>of_int b :: rat\<bar> \<le> Y"
    | (ifl) a q where "u = PInt a" "\<bar>of_int a :: rat\<bar> \<le> X" "v = PFloat (Fin q)" "\<bar>q\<bar> \<le> Y"
    | (fi) p b where "u = PFloat (Fin p)" "\<bar>p\<bar> \<le> X" "v = PInt b" "\<bar>of_int b :: rat\<bar> \<le> Y"
    | (ff) p q where "u = PFloat (Fin p)" "\<bar>p\<bar> \<le> X" "v = PFloat (Fin q)" "\<bar>q\<bar> \<le> Y"
    using u v unfolding nombre_borne_def by blast
  then show ?thesis
  proof cases
    case ii
    have "\<bar>of_int (a * b) :: rat\<bar> \<le> (2 * X + 1) * (2 * Y + 1)"
      using prod[of "of_int a" "of_int b"] ii(2,4) by simp
    then have "\<bar>of_int (a * b) :: rat\<bar> \<le> 2 * ((2 * X + 1) * (2 * Y + 1)) + 1"
      using small X Y by linarith
    then show ?thesis
      using ii by (auto simp: py_mul_def nombre_borne_def)
  next
    case ifl
    from float_of_int_borne[OF ifl(2) Xs] obtain r where
      r: "float_of_int a = Inr (Fin r)" "\<bar>r\<bar> \<le> 2 * X + 1" by blast
    from flprod[of r q] r(2) ifl(4) Y obtain w where
      "fl (r * q) = Fin w" "\<bar>w\<bar> \<le> 2 * ((2 * X + 1) * (2 * Y + 1)) + 1" by auto
    then show ?thesis
      using ifl r by (auto simp: py_mul_def nombre_borne_def)
  next
    case fi
    from float_of_int_borne[OF fi(4) Ys] obtain r where
      r: "float_of_int b = Inr (Fin r)" "\<bar>r\<bar> \<le> 2 * Y + 1" by blast
    from flprod[of p r] r(2) fi(2) X obtain w where
      "fl (p * r) = Fin w" "\<bar>w\<bar> \<le> 2 * ((2 * X + 1) * (2 * Y + 1)) + 1" by auto
    then show ?thesis
      using fi r by (auto simp: py_mul_def nombre_borne_def)
  next
    case ff
    from flprod[of p q] ff(2,4) X Y obtain w where
      "fl (p * q) = Fin w" "\<bar>w\<bar> \<le> 2 * ((2 * X + 1) * (2 * Y + 1)) + 1" by auto
    then show ?thesis
      using ff by (auto simp: py_mul_def nombre_borne_def)
  qed
qed

lemma py_round_borne: "nombre_borne B v \<Longrightarrow> \<exists>n. py_round v = Inr n"
  by (auto simp: nombre_borne_def py_round_def)

lemma py_round_nd_borne: "nombre_borne B v \<Longrightarrow> \<exists>w. py_round_nd v nd = Inr w"
  by (auto simp: nombre_borne_def py_round_nd_def)

lemma py_truediv_200:
  assumes "nombre_borne D d" and "nombre_positif d" and "D \<le> 2 ^ 1022"
  shows "\<exists>x. py_truediv d (PInt 200) = Inr (PFloat (Fin x)) \<and> 0 \<le> x \<and> x \<le> 2 * D + 1"
proof -
  have quot: "\<exists>x. fl (q / 200) = Fin x \<and> 0 \<le> x \<and> x \<le> 2 * D + 1"
    if "0 \<le> q" "q \<le> D" for q :: rat
  proof -
    have q0: "0 \<le> q / 200" using that(1) by simp
    have qD: "q / 200 \<le> D" using that by (simp add: field_simps)
    have "\<bar>q / 200\<bar> \<le> 2 ^ 1022" using q0 qD assms(3) by linarith
    from fl_finite[OF this] obtain x where x: "fl (q / 200) = Fin x"
        "\<bar>x\<bar> \<le> 2 * \<bar>q / 200\<bar> + 1" "0 \<le> q / 200 \<longrightarrow> 0 \<le> x"
      by blast
    have "0 \<le> x" using x(3) q0 by blast
    moreover have "x \<le> 2 * D + 1" using x(2) q0 qD by linarith
    ultimately show ?thesis using x(1) by blast
  qed
  consider (i) a where "d = PInt a" "0 \<le> a" "of_int a \<le> D"
    | (f) q where "d = PFloat (Fin q)" "0 \<le> q" "q \<le> D"
    using assms(1,2) unfolding nombre_borne_def nombre_positif_def by fastforce
  then show ?thesis
  proof cases
    case i
    from quot[of "of_int a"] i obtain x where "fl (of_int a / 200) = Fin x" "0 \<le> x" "x \<le> 2 * D + 1"
      by auto
    then show ?thesis using i by (simp add: py_truediv_def)
  next
    case f
    from quot[of q] f obtain x where "fl (q / 200) = Fin x" "0 \<le> x" "x \<le> 2 * D + 1"
      by auto
    moreover have "float_of_int 200 = Inr (Fin 200)"
      using fl_200 by (simp add: float_of_int_def)
    ultimately show ?thesis using f by (simp add: py_truediv_def)
  qed
qed

lemma math_sqrt_fin:
  assumes "0 \<le> x" and "x \<le> 2 ^ 1000"
  shows "\<exists>y. math_sqrt (PFloat (Fin x)) = Inr (PFloat (Fin y)) \<and> \<bar>y\<bar> \<le> 2 * x + 5"
proof (cases "x = 0")
  case True
  then show ?thesis by (simp add: math_sqrt_def)
next
  case False
  then have "0 < x" using assms(1) by simp
  from sqrt_rat_finite[OF this assms(2)] obtain y where
    "sqrt_rat x = Fin y" "0 \<le> y" "y \<le> 2 * x + 5" by blast
  then show ?thesis using \<open>0 < x\<close> by (simp add: math_sqrt_def)
qed

lemma couts_get: "dict_get COUTS_RESEAU (PStr k) (200, 500) = Inr (fourchette_de k)"
  by (simp add: dict_get_def COUTS_RESEAU_def fourchette_de_def)

lemma fourchette_borne:
  "\<bar>of_int (fst (fourchette_de k)) :: rat\<bar> \<le> 500 \<and> \<bar>of_int (snd (fourchette_de k)) :: rat\<bar> \<le> 500"
  by (simp add: fourchette_de_def)

lemma estimer_cout_formule:
  assumes "estimer_cout_reseau (PStr k) l d = Inr r"
  shows "\<exists>coeff cout_min cout_max.
            then_res (py_truediv d (PInt 200)) math_sqrt = Inr coeff
          \<and> then_res (then_res (py_mul (PInt (fst (fourchette_de k))) l) (\<lambda>a. py_mul a coeff))
               py_round = Inr cout_min
          \<and> then_res (then_res (py_mul (PInt (snd (fourchette_de k))) l) (\<lambda>a. py_mul a coeff))
               py_round = Inr cout_max
          \<and> cout_min_ht r = replace_virgule (format_virgule cout_min @ '' '' @ euro @ ''HT'')
          \<and> cout_max_ht r = replace_virgule (format_virgule cout_max @ '' '' @ euro @ ''HT'')"
  using assms unfolding estimer_cout_reseau_def couts_get
  by (auto simp: then_res_eq_Inr)

lemma estimer_cout_inconnu:
  assumes "t \<notin> {''eau_potable'', ''assainissement'', ''pluvial'', ''telecom''}"
  shows "estimer_cout_reseau (PStr t) l d =
           map_sum id (\<lambda>r. r\<lparr>type_reseau := PStr t\<rparr>)
             (estimer_cout_reseau (PStr ''assainissement'') l d)"
proof -
  have "fourchette_de t = fourchette_de ''assainissement''"
    using assms by (simp add: fourchette_de_def)
  then show ?thesis
    unfolding estimer_cout_reseau_def couts_get
    by (simp add: then_res_def split: sum.splits)
qed

lemma estimer_cout_negatif:
  assumes "n < 0"
  shows "estimer_cout_reseau (PStr k) l (PInt n) = Inl ValueError
       \<or> estimer_cout_reseau (PStr k) l (PInt n) = Inl OverflowError"
proof -
  have "of_int n \<le> (- 1 :: rat)" using assms by (metis of_int_le_iff of_int_minus of_int_1 zle_diff1_eq diff_0)
  then have "(of_int n :: rat) / 200 \<le> - (1 / 200)" by (simp add: field_simps)
  from fl_neg[OF this] show ?thesis
    unfolding estimer_cout_reseau_def couts_get
    by (auto simp: py_truediv_def math_sqrt_def)
qed

lemma estimer_cout_reussit:
  assumes l: "nombre_borne (10 ^ 15) l" and d: "nombre_borne (10 ^ 15) d"
    and pos: "nombre_positif d"
  shows "\<exists>r. estimer_cout_reseau (PStr k) l d = Inr r"
proof -
  from py_truediv_200[OF d pos] obtain x where
    x: "py_truediv d (PInt 200) = Inr (PFloat (Fin x))" "0 \<le> x" "x \<le> 2 * 10 ^ 15 + 1"
    by auto
  have "x \<le> 2 ^ 1000" using x(3) by simp
  from math_sqrt_fin[OF x(2) this] obtain y where
    y: "math_sqrt (PFloat (Fin x)) = Inr (PFloat (Fin y))" "\<bar>y\<bar> \<le> 2 * x + 5" by blast
  have coeff: "nombre_borne (10 ^ 17) (PFloat (Fin y))"
    using y(2) x(3) by (simp add: nombre_borne_def)
  have prod: "\<exists>n. then_res (then_res (py_mul (PInt c) l) (\<lambda>a. py_mul a (PFloat (Fin y))))
                      py_round = Inr n"
    if "\<bar>of_int c :: rat\<bar> \<le> 500" for c
  proof -
    have c: "nombre_borne 500 (PInt c)" using that by (simp add: nombre_borne_def)
    from py_mul_borne[OF c l] obtain a where
      a: "py_mul (PInt c) l = Inr a" "nombre_borne (2 * ((2 * 500 + 1) * (2 * 10 ^ 15 + 1)) + 1) a"
      by auto
    then have a': "nombre_borne (10 ^ 19) a"
      by (rule_tac nombre_borne_mono) auto
    from py_mul_borne[OF a' coeff] obtain b where
      b: "py_mul a (PFloat (Fin y)) = Inr b"
         "nombre_borne (2 * ((2 * 10 ^ 19 + 1) * (2 * 10 ^ 17 + 1)) + 1) b"
      by auto
    from py_round_borne[OF b(2)] obtain n where "py_round b = Inr n" by blast
    then show ?thesis using a(1) b(1) by simp
  qed
  from prod[of "fst (fourchette_de k)"] prod[of "snd (fourchette_de k)"] fourchette_borne[of k]
  obtain cmin cmax where
    "then_res (then_res (py_mul (PInt (fst (fourchette_de k))) l)
       (\<lambda>a. py_mul a (PFloat (Fin y)))) py_round = Inr cmin"
    "then_res (then_res (py_mul (PInt (snd (fourchette_de k))) l)
       (\<lambda>a. py_mul a (PFloat (Fin y)))) py_round = Inr cmax"
    by blast
  then show ?thesis
    unfolding estimer_cout_reseau_def couts_get
    by (auto simp: x(1) y(1) then_res_eq_Inr)
qed

lemma decimal_borne:
  assumes "\<bar>of_int m / 10 ^ d :: rat\<bar> \<le> 5 / 2"
  shows "nombre_borne 6 (PFloat (decimal m d))"
proof -
  have "(5 / 2 :: rat) \<le> 2 ^ 1022" by simp
  with assms have "\<bar>of_int m / 10 ^ d :: rat\<bar> \<le> 2 ^ 1022" by (rule order_trans)
  from fl_finite[OF this] obtain r where "fl (of_int m / 10 ^ d) = Fin r"
     "\<bar>r\<bar> \<le> 2 * \<bar>of_int m / 10 ^ d\<bar> + 1" by blast
  then have "fl (of_int m / 10 ^ d) = Fin r" "\<bar>r\<bar> \<le> 6" using assms by linarith+
  then show ?thesis by (simp add: nombre_borne_def decimal_def)
qed

lemma densite_borne: "nombre_borne 6 (PFloat (densite_de m))"
  by (auto simp: densite_de_def intro!: decimal_borne)

lemma calculer_volume_reussit:
  assumes l: "nombre_borne (10 ^ 15) l" and w: "nombre_borne (10 ^ 15) w"
    and d: "nombre_borne (10 ^ 15) d"
  shows "\<exists>r. calculer_volume l w d (PStr m) = Inr r"
proof -
  from py_mul_borne[OF l w] obtain a where
    a: "py_mul l w = Inr a" "nombre_borne (2 * ((2 * 10 ^ 15 + 1) * (2 * 10 ^ 15 + 1)) + 1) a"
    by auto
  then have a': "nombre_borne (10 ^ 32) a" by (rule_tac nombre_borne_mono) auto
  from py_mul_borne[OF a' d] obtain v where
    v: "py_mul a d = Inr v" "nombre_borne (2 * ((2 * 10 ^ 32 + 1) * (2 * 10 ^ 15 + 1)) + 1) v"
    by auto
  then have v': "nombre_borne (10 ^ 49) v" by (rule_tac nombre_borne_mono) auto
  from py_mul_borne[OF v' densite_borne[of m]] obtain ms where
    ms: "py_mul v (PFloat (densite_de m)) = Inr ms"
        "nombre_borne (2 * ((2 * 10 ^ 49 + 1) * (2 * 6 + 1)) + 1) ms"
    by auto
  from py_round_nd_borne[OF v'] obtain vr where vr: "py_round_nd v 2 = Inr vr" by blast
  from py_round_nd_borne[OF ms(2)] obtain mr where mr: "py_round_nd ms 2 = Inr mr" by blast
  show ?thesis
    unfolding calculer_volume_def densites_get
    by (simp add: a(1) v(1) ms(1) vr mr en_texte_bornes[OF l w d])
qed

lemma rhe_neg_demi:
  assumes "x < - (1 / 2)"
  shows "round_half_even x \<le> - 1"
proof (cases "\<lfloor>x\<rfloor> \<le> - 2")
  case True
  then show ?thesis using rhe_le[of x] by linarith
next
  case False
  moreover have "\<lfloor>x\<rfloor> \<le> - 1" using assms by linarith
  ultimately have f: "\<lfloor>x\<rfloor> = - 1" by linarith
  then show ?thesis using assms by (simp add: round_half_even_def Let_def)
qed

lemma rhe_zero:
  assumes "- (1 / 2) \<le> x" and "x \<le> 0"
  shows "round_half_even x = 0"
proof (cases "x = 0")
  case True
  then show ?thesis by (simp add: round_half_even_def)
next
  case False
  then have "\<lfloor>x\<rfloor> = - 1" using assms by linarith
  then show ?thesis using assms by (simp add: round_half_even_def Let_def)
qed

lemma fl_negatif:
  assumes "x < - (1 / 2 ^ 1075)"
  shows "fl x = NInf \<or> (\<exists>r. fl x = Fin r \<and> r < 0)"
proof -
  have neg: "x < 0" using assms by (rule less_trans) simp
  then have nz: "x \<noteq> 0" and a: "\<bar>x\<bar> = - x" by auto
  let ?e = "max (ilog2 x) (- 1022)"
  let ?u = "pow2 (?e - 52)"
  let ?m = "round_half_even (x / ?u)"
  have u: "0 < ?u" by (rule pow2_pos)
  have "?u / 2 < - x"
  proof (cases "- 1022 \<le> ilog2 x")
    case True
    have "pow2 (ilog2 x - 52) \<le> pow2 (ilog2 x)" by (rule pow2_mono) simp
    also have "\<dots> \<le> \<bar>x\<bar>" using nz by (rule ilog2_le)
    finally have "?u \<le> - x" using True a by (simp add: max_def)
    then show ?thesis using u by linarith
  next
    case False
    then have "?u = 1 / 2 ^ 1074" by (simp add: max_def pow2_def)
    then show ?thesis using assms by simp
  qed
  then have "x / ?u < - (1 / 2)" using u by (simp add: field_simps)
  then have "?m \<le> - 1" by (rule rhe_neg_demi)
  then have "(of_int ?m :: rat) \<le> - 1" by (metis of_int_le_iff of_int_minus of_int_1)
  then have "of_int ?m * ?u < 0" using u by (simp add: mult_neg_pos)
  then show ?thesis using nz neg by (auto simp: fl_def Let_def)
qed

lemma fl_petit:
  assumes "- (1 / 2 ^ 1075) \<le> x" and "x \<le> 0"
  shows "fl x = Fin 0"
proof (cases "x = 0")
  case True
  then show ?thesis by (simp add: fl_def)
next
  case False
  then have a: "\<bar>x\<bar> = - x" using assms(2) by simp
  have small: "ilog2 x < - 1022"
  proof (rule ccontr)
    assume "\<not> ilog2 x < - 1022"
    then have "pow2 (- 1022) \<le> pow2 (ilog2 x)" by (intro pow2_mono) simp
    also have "\<dots> \<le> \<bar>x\<bar>" using False by (rule ilog2_le)
    finally have "1 / 2 ^ 1022 \<le> - x" using a by (simp add: pow2_def)
    moreover have "(1 / 2 ^ 1075 :: rat) < 1 / 2 ^ 1022" by simp
    ultimately show False using assms(1) by linarith
  qed
  let ?e = "max (ilog2 x) (- 1022)"
  have e: "?e = - 1022" using small by simp
  have u: "pow2 (?e - 52) = 1 / 2 ^ 1074" unfolding e by (simp add: pow2_def)
  have "- (1 / 2) \<le> x / (1 / 2 ^ 1074)" using assms(1) by (simp add: field_simps)
  moreover have "x / (1 / 2 ^ 1074) \<le> 0" using assms(2) by (simp add: field_simps)
  ultimately have m: "round_half_even (x / (1 / 2 ^ 1074)) = 0" by (rule rhe_zero)
  have t: "(1023 < ?e) = False" "(?e = 1023) = False" unfolding e by simp_all
  have "fl x = Fin (of_int (round_half_even (x / pow2 (?e - 52))) * pow2 (?e - 52))"
    by (simp only: fl_def Let_def False t if_False simp_thms)
  then show ?thesis unfolding u m by simp
qed

lemma ilog2_lt:
  assumes "q \<noteq> 0"
  shows "\<bar>q\<bar> < pow2 (ilog2 q + 1)"
proof (cases "1 \<le> \<bar>q\<bar>")
  case True
  let ?m = "\<lfloor>\<bar>q\<bar>\<rfloor>"
  have m: "0 < ?m" using True by linarith
  then have b: "1 \<le> bitlen ?m"
    using bitlen_eq_zero_iff[of ?m] bitlen_nonneg[of ?m] by linarith
  have "?m < 2 ^ nat (bitlen ?m)"
    using bitlen_bounds[OF m] by simp
  then have "?m + 1 \<le> 2 ^ nat (bitlen ?m)" by linarith
  then have "(of_int (?m + 1) :: rat) \<le> of_int (2 ^ nat (bitlen ?m))"
    by (simp only: of_int_le_iff)
  moreover have "\<bar>q\<bar> < of_int (?m + 1)" by linarith
  ultimately have "\<bar>q\<bar> < 2 ^ nat (bitlen ?m)" by simp
  then show ?thesis
    using True b by (simp add: ilog2_def pow2_def)
next
  case False
  then have a: "0 < \<bar>q\<bar>" "\<bar>q\<bar> < 1" using assms by auto
  let ?c = "\<lceil>1 / \<bar>q\<bar>\<rceil>"
  have inv: "1 < 1 / \<bar>q\<bar>" using a by (simp add: field_simps)
  then have c: "0 < ?c - 1" by linarith
  then have b: "1 \<le> bitlen (?c - 1)"
    using bitlen_eq_zero_iff[of "?c - 1"] bitlen_nonneg[of "?c - 1"] by linarith
  have "2 ^ nat (bitlen (?c - 1) - 1) \<le> ?c - 1"
    using bitlen_bounds[OF c] by simp
  then have "(of_int (2 ^ nat (bitlen (?c - 1) - 1)) :: rat) \<le> of_int (?c - 1)"
    by (simp only: of_int_le_iff)
  moreover have "(of_int (?c - 1) :: rat) < 1 / \<bar>q\<bar>" by linarith
  ultimately have "(2::rat) ^ nat (bitlen (?c - 1) - 1) < 1 / \<bar>q\<bar>" by simp
  then have lt: "\<bar>q\<bar> < 1 / 2 ^ nat (bitlen (?c - 1) - 1)"
    using a by (simp add: field_simps)
  show ?thesis
  proof (cases "bitlen (?c - 1) = 1")
    case True
    then show ?thesis using False a by (simp add: ilog2_def pow2_def)
  next
    case ne: False
    then have "2 \<le> bitlen (?c - 1)" using b by linarith
    then have "pow2 (ilog2 q + 1) = 1 / 2 ^ nat (bitlen (?c - 1) - 1)"
      using False by (simp add: ilog2_def pow2_def)
    then show ?thesis using lt by simp
  qed
qed

lemma fl_Fin_borne:
  assumes "fl q = Fin r"
  shows "\<bar>q\<bar> < 2 ^ 1024"
proof (cases "q = 0")
  case True
  then show ?thesis by simp
next
  case False
  have "\<not> 1023 < max (ilog2 q) (- 1022)"
    using assms False by (auto simp: fl_def Let_def split: if_splits)
  then have "ilog2 q + 1 \<le> 1024" by simp
  then have "pow2 (ilog2 q + 1) \<le> pow2 1024" by (rule pow2_mono)
  moreover have "\<bar>q\<bar> < pow2 (ilog2 q + 1)" using False by (rule ilog2_lt)
  ultimately show ?thesis by (simp add: pow2_def)
qed

lemma float_of_int_court:
  assumes "float_of_int n = Inr x"
  shows "\<not> trop_long n"
proof -
  obtain r where "fl (of_int n) = Fin r"
    using assms by (auto simp: float_of_int_def split: pyfloat.splits)
  then have "\<bar>of_int n :: rat\<bar> < 2 ^ 1024" by (rule fl_Fin_borne)
  then have "(of_int \<bar>n\<bar> :: rat) < of_int (2 ^ 1024)" by simp
  then have "\<bar>n\<bar> < 2 ^ 1024" by (simp only: of_int_less_iff)
  then show ?thesis by (rule court)
qed

section \<open>Volume and mass\<close>

text \<open>
  Claim C6, amended. For every material tag \<open>m\<close>: when \<^verbatim>\<open>calculer_volume\<close> returns,
  \<^verbatim>\<open>volume_m3\<close> is \<^verbatim>\<open>round(longueur * largeur * profondeur, 2)\<close> and \<^verbatim>\<open>masse_t\<close> is
  \<^verbatim>\<open>round(longueur * largeur * profondeur * densite, 2)\<close> in Python's arithmetic, where
  the density is the table value of a recognized material and 1.8 otherwise. The
  rounding to two decimals leaves an int volume as it is (so three ints give exactly
  their product) and changes a float. An unrecognized material gives what \<^verbatim>\<open>terre\<close>
  gives (but for the tag echoed), so the lookup never fails; the call returns for all
  float dimensions, and for all ints and finite floats up to \<open>10^15\<close>. The two examples
  of the specification hold: volume 80 and mass 192.0 for \<^verbatim>\<open>beton\<close>, mass 144.0 for
  an unknown material.
\<close>

theorem calculer_volume_arrondi:
  "(\<forall>r. calculer_volume l w d (PStr m) = Inr r \<longrightarrow>
      (\<exists>volume masse.
          then_res (py_mul l w) (\<lambda>lw. py_mul lw d) = Inr volume
        \<and> py_mul volume (PFloat (densite_de m)) = Inr masse
        \<and> py_round_nd volume 2 = Inr (volume_m3 r)
        \<and> py_round_nd masse 2 = Inr (masse_t r))
      \<and> materiau r = PStr m)
   \<and> (m \<notin> {''terre'', ''beton'', ''eau'', ''gravier''} \<longrightarrow>
        densite_de m = decimal 18 1
        \<and> calculer_volume l w d (PStr m) =
            map_sum id (\<lambda>r. r\<lparr>materiau := PStr m\<rparr>) (calculer_volume l w d (PStr ''terre'')))
   \<and> (nombre_borne (10 ^ 15) l \<and> nombre_borne (10 ^ 15) w \<and> nombre_borne (10 ^ 15) d \<longrightarrow>
        (\<exists>r. calculer_volume l w d (PStr m) = Inr r))
   \<and> (\<forall>a b c. \<exists>r. calculer_volume (PFloat a) (PFloat b) (PFloat c) (PStr m) = Inr r)
   \<and> (\<forall>x y z r. calculer_volume (PInt x) (PInt y) (PInt z) (PStr m) = Inr r \<longrightarrow>
        volume_m3 r = PInt (x * y * z))
   \<and> (\<forall>a b c r.
        calculer_volume (PFloat (Fin a)) (PFloat (Fin b)) (PFloat (Fin c)) (PStr m) = Inr r \<longrightarrow>
        volume_m3 r =
          (case float_mul (fl (a * b)) (Fin c) of
             Fin v \<Rightarrow> PFloat (fl (of_int (round_half_even (v * 10 ^ 2)) / 10 ^ 2))
           | x \<Rightarrow> PFloat x))
   \<and> map_sum id (\<lambda>r. (volume_m3 r, masse_t r))
        (calculer_volume (PInt 10) (PInt 4) (PInt 2) (PStr ''beton'')) =
      Inr (PInt 80, PFloat (Fin 192))
   \<and> map_sum id (\<lambda>r. (volume_m3 r, masse_t r))
        (calculer_volume (PInt 10) (PInt 4) (PInt 2) (PStr ''unknown'')) =
      Inr (PInt 80, PFloat (Fin 144))"
proof (intro conjI allI impI)
  fix r assume "calculer_volume l w d (PStr m) = Inr r"
  from calculer_volume_formule[OF this]
  show "\<exists>volume masse.
          then_res (py_mul l w) (\<lambda>lw. py_mul lw d) = Inr volume
        \<and> py_mul volume (PFloat (densite_de m)) = Inr masse
        \<and> py_round_nd volume 2 = Inr (volume_m3 r)
        \<and> py_round_nd masse 2 = Inr (masse_t r)"
    and "materiau r = PStr m"
    by blast+
next
  assume "m \<notin> {''terre'', ''beton'', ''eau'', ''gravier''}"
  then show "densite_de m = decimal 18 1"
    and "calculer_volume l w d (PStr m) =
            map_sum id (\<lambda>r. r\<lparr>materiau := PStr m\<rparr>) (calculer_volume l w d (PStr ''terre''))"
    by (simp_all add: densite_de_def calculer_volume_inconnu)
next
  assume "nombre_borne (10 ^ 15) l \<and> nombre_borne (10 ^ 15) w \<and> nombre_borne (10 ^ 15) d"
  then show "\<exists>r. calculer_volume l w d (PStr m) = Inr r"
    by (intro calculer_volume_reussit) auto
qed (use calculer_volume_floats calculer_volume_ints calculer_volume_fins
         exemple_beton exemple_inconnu in blast)+

text \<open>The theorem at the dimensions 10, 4 and 2 and an unknown material.\<close>

theorem calculer_volume_arrondi_witness:
  "map_sum id materiau (calculer_volume (PInt 10) (PInt 4) (PInt 2) (PStr ''unknown''))
     = map_sum id materiau (map_sum id (\<lambda>r. r\<lparr>materiau := PStr ''unknown''\<rparr>)
         (calculer_volume (PInt 10) (PInt 4) (PInt 2) (PStr ''terre'')))
   \<and> densite_de ''unknown'' = decimal 18 1
   \<and> (\<exists>r. calculer_volume (PInt 10) (PInt 4) (PInt 2) (PStr ''unknown'') = Inr r)"
proof -
  have b: "nombre_borne (10 ^ 15) (PInt 10) \<and> nombre_borne (10 ^ 15) (PInt 4)
         \<and> nombre_borne (10 ^ 15) (PInt 2)"
    by (simp add: nombre_borne_def)
  have n: "''unknown'' \<notin> {''terre'', ''beton'', ''eau'', ''gravier''}"
    by simp
  note th = calculer_volume_arrondi[of "PInt 10" "PInt 4" "PInt 2" "''unknown''"]
  from th[THEN conjunct2, THEN conjunct1, rule_format, OF n]
       th[THEN conjunct2, THEN conjunct2, THEN conjunct1, rule_format, OF b]
  show ?thesis by simp
qed

text \<open>
  Claim C6 as stated fails: with the three dimensions 0.25 and water, the volume
  returned is the double nearest to 0.02, not the product 0.015625.
\<close>

theorem calculer_volume_arrondit_le_volume:
  "map_sum id volume_m3
     (calculer_volume (PFloat (Fin (1 / 4))) (PFloat (Fin (1 / 4))) (PFloat (Fin (1 / 4)))
        (PStr ''eau'')) = Inr (PFloat (Fin (5764607523034235 / 288230376151711744)))
   \<and> (5764607523034235 / 288230376151711744 :: rat) \<noteq> 1 / 4 * (1 / 4) * (1 / 4)
   \<and> fl (2 / 100) = Fin (5764607523034235 / 288230376151711744)"
  by code_simp

section \<open>Network cost\<close>

lemma outil_cout_defaut:
  "outil_estimer_cout_reseau j [(''type_reseau'', t), (''longueur_m'', l)] =
     (case estimer_cout_reseau t l (PInt 200) of
        Inl e \<Rightarrow> Inl (e, j) | Inr r \<Rightarrow> Inr (Cout r, j))"
  by (simp add: outil_estimer_cout_reseau_def appel_kwargs_def)

lemma exemple_eau_potable:
  "map_sum id (\<lambda>r. (cout_min_ht r, cout_max_ht r))
     (estimer_cout_reseau (PStr ''eau_potable'') (PInt 100) (PInt 200)) =
   Inr (''15 000 '' @ euro @ ''HT'', ''35 000 '' @ euro @ ''HT'')"
  by code_simp

lemma exemple_coeff: "then_res (py_truediv (PInt 200) (PInt 200)) math_sqrt = Inr (PFloat (Fin 1))"
  by code_simp

lemma exemple_format: "format_virgule 15000 = ''15,000'' \<and> format_virgule 35000 = ''35,000''"
  by code_simp

lemma truediv_float_200:
  "py_truediv (PFloat (Fin q)) (PInt 200) = Inr (PFloat (fl (q / 200)))"
  using fl_200 by (simp add: py_truediv_def float_of_int_def)

lemma estimer_cout_negatif_int:
  assumes "n < 0" and "- (10 ^ 300) \<le> n"
  shows "estimer_cout_reseau (PStr k) l (PInt n) = Inl ValueError"
proof -
  have "of_int n \<le> (- 1 :: rat)"
    using assms(1) by (metis of_int_le_iff of_int_minus of_int_1 zle_diff1_eq diff_0)
  then have le: "(of_int n :: rat) / 200 \<le> - (1 / 200)" by (simp add: field_simps)
  have "(of_int (- (10 ^ 300)) :: rat) \<le> of_int n"
    using assms(2) by (simp only: of_int_le_iff)
  then have "- (10 ^ 300) \<le> (of_int n :: rat)" by simp
  then have "\<bar>(of_int n :: rat) / 200\<bar> \<le> 10 ^ 300" using le by simp
  moreover have "(10::rat) ^ 300 \<le> 2 ^ 1022" by simp
  ultimately have "\<bar>(of_int n :: rat) / 200\<bar> \<le> 2 ^ 1022" by (rule order_trans)
  from fl_finite[OF this] obtain r where r: "fl (of_int n / 200) = Fin r" by blast
  with fl_neg[OF le] have "r < 0" by simp
  then show ?thesis
    unfolding estimer_cout_reseau_def couts_get
    using r by (simp add: py_truediv_def math_sqrt_def)
qed

lemma estimer_cout_negatif_float:
  assumes "q < - (25 / 2 ^ 1072)"
  shows "estimer_cout_reseau (PStr k) l (PFloat (Fin q)) = Inl ValueError"
proof -
  have "q / 200 < - (1 / 2 ^ 1075)" using assms by (simp add: field_simps)
  from fl_negatif[OF this] show ?thesis
    unfolding estimer_cout_reseau_def couts_get truediv_float_200
    by (auto simp: math_sqrt_def)
qed

lemma py_mul_zero:
  assumes "nombre_borne B a" and "B \<le> 2 ^ 1022"
  shows "py_mul a (PFloat (Fin 0)) = Inr (PFloat (Fin 0))"
proof -
  have z: "fl 0 = Fin 0" by (simp add: fl_def)
  consider (i) x where "a = PInt x" "\<bar>of_int x :: rat\<bar> \<le> B" | (f) p where "a = PFloat (Fin p)"
    using assms(1) unfolding nombre_borne_def by blast
  then show ?thesis
  proof cases
    case i
    from float_of_int_borne[OF i(2) assms(2)] obtain r where "float_of_int x = Inr (Fin r)"
      by blast
    then show ?thesis using i z by (simp add: py_mul_def)
  next
    case f
    then show ?thesis using z by (simp add: py_mul_def)
  qed
qed

lemma format_zero: "replace_virgule (format_virgule 0 @ '' '' @ euro @ ''HT'') = ''0 '' @ euro @ ''HT''"
  by code_simp

lemma estimer_cout_sous_flux:
  assumes "- (25 / 2 ^ 1072) \<le> q" and "q \<le> 0" and l: "nombre_borne (10 ^ 15) l"
  shows "map_sum id (\<lambda>r. (cout_min_ht r, cout_max_ht r))
           (estimer_cout_reseau (PStr k) l (PFloat (Fin q))) =
         Inr (''0 '' @ euro @ ''HT'', ''0 '' @ euro @ ''HT'')"
proof -
  have "- (1 / 2 ^ 1075) \<le> q / 200" using assms(1) by (simp add: field_simps)
  moreover have "q / 200 \<le> 0" using assms(2) by simp
  ultimately have q: "fl (q / 200) = Fin 0" by (rule fl_petit)
  have coeff: "math_sqrt (PFloat (Fin 0)) = Inr (PFloat (Fin 0))"
    by (simp add: math_sqrt_def)
  have prod: "\<exists>a. py_mul (PInt c) l = Inr a \<and> py_mul a (PFloat (Fin 0)) = Inr (PFloat (Fin 0))"
    if "\<bar>of_int c :: rat\<bar> \<le> 500" for c
  proof -
    have c: "nombre_borne 500 (PInt c)" using that by (simp add: nombre_borne_def)
    from py_mul_borne[OF c l] obtain a where
      a: "py_mul (PInt c) l = Inr a" "nombre_borne (2 * ((2 * 500 + 1) * (2 * 10 ^ 15 + 1)) + 1) a"
      by auto
    have "py_mul a (PFloat (Fin 0)) = Inr (PFloat (Fin 0))"
      using a(2) by (rule py_mul_zero) simp
    then show ?thesis using a(1) by blast
  qed
  from prod[of "fst (fourchette_de k)"] prod[of "snd (fourchette_de k)"] fourchette_borne[of k]
  obtain a1 a2 where
    a1: "py_mul (PInt (fst (fourchette_de k))) l = Inr a1"
        "py_mul a1 (PFloat (Fin 0)) = Inr (PFloat (Fin 0))" and
    a2: "py_mul (PInt (snd (fourchette_de k))) l = Inr a2"
        "py_mul a2 (PFloat (Fin 0)) = Inr (PFloat (Fin 0))"
    by blast
  have r0: "py_round (PFloat (Fin 0)) = Inr 0"
    by (simp add: py_round_def round_half_even_def)
  show ?thesis
    unfolding estimer_cout_reseau_def couts_get truediv_float_200 q
    using format_zero by (simp add: coeff a1 a2 r0)
qed

lemma estimer_cout_nan:
  assumes d: "nombre_borne (10 ^ 15) d" and pos: "nombre_positif d"
  shows "estimer_cout_reseau (PStr k) (PFloat NaN) d = Inl ValueError"
proof -
  from py_truediv_200[OF d pos] obtain x where
    x: "py_truediv d (PInt 200) = Inr (PFloat (Fin x))" "0 \<le> x" "x \<le> 2 * 10 ^ 15 + 1"
    by auto
  have "x \<le> 2 ^ 1000" using x(3) by simp
  from math_sqrt_fin[OF x(2) this] obtain y where
    y: "math_sqrt (PFloat (Fin x)) = Inr (PFloat (Fin y))" by blast
  have "\<bar>of_int (fst (fourchette_de k)) :: rat\<bar> \<le> 500" using fourchette_borne[of k] by simp
  from float_of_int_borne[OF this] obtain r where
    "float_of_int (fst (fourchette_de k)) = Inr (Fin r)" by auto
  then have "py_mul (PInt (fst (fourchette_de k))) (PFloat NaN) = Inr (PFloat NaN)"
    by (simp add: py_mul_def)
  then show ?thesis
    unfolding estimer_cout_reseau_def couts_get
    by (simp add: x(1) y py_mul_def py_round_def)
qed

text \<open>
  Claim C7, amended. For every network kind \<open>k\<close> with unit-cost bounds
  \<open>fourchette_de k\<close> (the table value: 150 and 350 for \<^verbatim>\<open>eau_potable\<close>, 200 and 500 for
  \<^verbatim>\<open>assainissement\<close>, 180 and 420 for \<^verbatim>\<open>pluvial\<close>, 80 and 180 for \<^verbatim>\<open>telecom\<close>):
  \<^item> when \<^verbatim>\<open>estimer_cout_reseau\<close> returns, the coefficient is \<^verbatim>\<open>math.sqrt(diametre / 200)\<close>
    and the two costs are \<^verbatim>\<open>round(bound * longueur * coefficient)\<close>, rounded to the nearest
    integer (a half to the even one), and returned as strings: the integer with its
    thousands separated by spaces, then \<^verbatim>\<open> EUR-sign HT\<close>;
  \<^item> it returns when the length and the diameter are ints or finite floats of magnitude
    at most \<open>10^15\<close> and the diameter is not negative;
  \<^item> a call through the executor without a diameter uses 200;
  \<^item> a negative int diameter makes the call raise, whatever the length: \<^verbatim>\<open>ValueError\<close>
    from the square root down to \<open>-10^300\<close>, and below that \<^verbatim>\<open>ValueError\<close> or
    \<^verbatim>\<open>OverflowError\<close> (from the division);
  \<^item> a negative float diameter below \<open>-25 / 2^1072\<close> makes the call raise \<^verbatim>\<open>ValueError\<close>,
    whatever the length; from \<open>-25 / 2^1072\<close> up to zero (the smallest negative double,
    \<open>-1 / 2^1074\<close>, is in that range) the quotient \<^verbatim>\<open>diametre / 200\<close> rounds to zero and,
    with a length as in the second item, the call returns and both costs are the string
    of 0;
  \<^item> a NaN length makes the call raise \<^verbatim>\<open>ValueError\<close> (from \<^verbatim>\<open>round\<close>), with a diameter
    as in the second item;
  \<^item> for \<^verbatim>\<open>eau_potable\<close>, 100 and 200 the coefficient is 1.0 and the costs are the
    strings of 15000 and 35000.
\<close>

theorem estimer_cout_reseau_arrondi:
  "(\<forall>r. estimer_cout_reseau (PStr k) l d = Inr r \<longrightarrow>
      (\<exists>coeff cout_min cout_max.
          then_res (py_truediv d (PInt 200)) math_sqrt = Inr coeff
        \<and> then_res (then_res (py_mul (PInt (fst (fourchette_de k))) l) (\<lambda>a. py_mul a coeff))
             py_round = Inr cout_min
        \<and> then_res (then_res (py_mul (PInt (snd (fourchette_de k))) l) (\<lambda>a. py_mul a coeff))
             py_round = Inr cout_max
        \<and> cout_min_ht r = replace_virgule (format_virgule cout_min @ '' '' @ euro @ ''HT'')
        \<and> cout_max_ht r = replace_virgule (format_virgule cout_max @ '' '' @ euro @ ''HT'')))
   \<and> (nombre_borne (10 ^ 15) l \<and> nombre_borne (10 ^ 15) d \<and> nombre_positif d \<longrightarrow>
        (\<exists>r. estimer_cout_reseau (PStr k) l d = Inr r))
   \<and> fourchette_de ''eau_potable'' = (150, 350)
   \<and> fourchette_de ''assainissement'' = (200, 500)
   \<and> fourchette_de ''pluvial'' = (180, 420)
   \<and> fourchette_de ''telecom'' = (80, 180)
   \<and> outil_estimer_cout_reseau j [(''type_reseau'', PStr k), (''longueur_m'', l)] =
        (case estimer_cout_reseau (PStr k) l (PInt 200) of
           Inl e \<Rightarrow> Inl (e, j) | Inr r \<Rightarrow> Inr (Cout r, j))
   \<and> (\<forall>n. n < 0 \<and> - (10 ^ 300) \<le> n \<longrightarrow>
        estimer_cout_reseau (PStr k) l (PInt n) = Inl ValueError)
   \<and> (\<forall>n < 0. estimer_cout_reseau (PStr k) l (PInt n) = Inl ValueError
              \<or> estimer_cout_reseau (PStr k) l (PInt n) = Inl OverflowError)
   \<and> (\<forall>q. q < - (25 / 2 ^ 1072) \<longrightarrow>
        estimer_cout_reseau (PStr k) l (PFloat (Fin q)) = Inl ValueError)
   \<and> (\<forall>q. - (25 / 2 ^ 1072) \<le> q \<and> q \<le> 0 \<and> nombre_borne (10 ^ 15) l \<longrightarrow>
        map_sum id (\<lambda>r. (cout_min_ht r, cout_max_ht r))
          (estimer_cout_reseau (PStr k) l (PFloat (Fin q))) =
        Inr (''0 '' @ euro @ ''HT'', ''0 '' @ euro @ ''HT''))
   \<and> (nombre_borne (10 ^ 15) d \<and> nombre_positif d \<longrightarrow>
        estimer_cout_reseau (PStr k) (PFloat NaN) d = Inl ValueError)
   \<and> then_res (py_truediv (PInt 200) (PInt 200)) math_sqrt = Inr (PFloat (Fin 1))
   \<and> map_sum id (\<lambda>r. (cout_min_ht r, cout_max_ht r))
        (estimer_cout_reseau (PStr ''eau_potable'') (PInt 100) (PInt 200)) =
      Inr (replace_virgule (format_virgule 15000 @ '' '' @ euro @ ''HT''),
           replace_virgule (format_virgule 35000 @ '' '' @ euro @ ''HT''))
   \<and> replace_virgule (format_virgule 15000 @ '' '' @ euro @ ''HT'') = ''15 000 '' @ euro @ ''HT''
   \<and> replace_virgule (format_virgule 35000 @ '' '' @ euro @ ''HT'') = ''35 000 '' @ euro @ ''HT''"
proof (intro conjI allI impI)
  fix r assume "estimer_cout_reseau (PStr k) l d = Inr r"
  then show "\<exists>coeff cout_min cout_max.
          then_res (py_truediv d (PInt 200)) math_sqrt = Inr coeff
        \<and> then_res (then_res (py_mul (PInt (fst (fourchette_de k))) l) (\<lambda>a. py_mul a coeff))
             py_round = Inr cout_min
        \<and> then_res (then_res (py_mul (PInt (snd (fourchette_de k))) l) (\<lambda>a. py_mul a coeff))
             py_round = Inr cout_max
        \<and> cout_min_ht r = replace_virgule (format_virgule cout_min @ '' '' @ euro @ ''HT'')
        \<and> cout_max_ht r = replace_virgule (format_virgule cout_max @ '' '' @ euro @ ''HT'')"
    by (rule estimer_cout_formule)
next
  assume "nombre_borne (10 ^ 15) l \<and> nombre_borne (10 ^ 15) d \<and> nombre_positif d"
  then show "\<exists>r. estimer_cout_reseau (PStr k) l d = Inr r"
    by (intro estimer_cout_reussit) auto
next
  fix n :: int assume "n < 0 \<and> - (10 ^ 300) \<le> n"
  then show "estimer_cout_reseau (PStr k) l (PInt n) = Inl ValueError"
    by (intro estimer_cout_negatif_int) auto
next
  fix n :: int assume "n < 0"
  then show "estimer_cout_reseau (PStr k) l (PInt n) = Inl ValueError
              \<or> estimer_cout_reseau (PStr k) l (PInt n) = Inl OverflowError"
    by (rule estimer_cout_negatif)
next
  fix q :: rat assume "q < - (25 / 2 ^ 1072)"
  then show "estimer_cout_reseau (PStr k) l (PFloat (Fin q)) = Inl ValueError"
    by (rule estimer_cout_negatif_float)
next
  fix q :: rat assume "- (25 / 2 ^ 1072) \<le> q \<and> q \<le> 0 \<and> nombre_borne (10 ^ 15) l"
  then show "map_sum id (\<lambda>r. (cout_min_ht r, cout_max_ht r))
          (estimer_cout_reseau (PStr k) l (PFloat (Fin q))) =
        Inr (''0 '' @ euro @ ''HT'', ''0 '' @ euro @ ''HT'')"
    by (intro estimer_cout_sous_flux) auto
next
  assume "nombre_borne (10 ^ 15) d \<and> nombre_positif d"
  then show "estimer_cout_reseau (PStr k) (PFloat NaN) d = Inl ValueError"
    by (intro estimer_cout_nan) auto
next
  show "map_sum id (\<lambda>r. (cout_min_ht r, cout_max_ht r))
        (estimer_cout_reseau (PStr ''eau_potable'') (PInt 100) (PInt 200)) =
      Inr (replace_virgule (format_virgule 15000 @ '' '' @ euro @ ''HT''),
           replace_virgule (format_virgule 35000 @ '' '' @ euro @ ''HT''))"
    using exemple_eau_potable exemple_format by (simp add: replace_virgule_def euro_def)
qed (simp_all add: fourchette_de_def outil_cout_defaut exemple_coeff exemple_format
       replace_virgule_def euro_def)

text \<open>
  The theorem at \<^verbatim>\<open>eau_potable\<close> and 100 metres, with the diameters 300, -200 and
  \<open>-1 / 2^1074\<close> (the double that Python writes \<^verbatim>\<open>-5e-324\<close>), and at a NaN length.
\<close>

theorem estimer_cout_reseau_arrondi_witness:
  "(\<exists>r coeff cout_min cout_max.
       estimer_cout_reseau (PStr ''eau_potable'') (PInt 100) (PInt 300) = Inr r
     \<and> then_res (py_truediv (PInt 300) (PInt 200)) math_sqrt = Inr coeff
     \<and> then_res (then_res (py_mul (PInt 150) (PInt 100)) (\<lambda>a. py_mul a coeff)) py_round
          = Inr cout_min
     \<and> then_res (then_res (py_mul (PInt 350) (PInt 100)) (\<lambda>a. py_mul a coeff)) py_round
          = Inr cout_max
     \<and> cout_min_ht r = replace_virgule (format_virgule cout_min @ '' '' @ euro @ ''HT''))
   \<and> estimer_cout_reseau (PStr ''eau_potable'') (PInt 100) (PInt (- 200)) = Inl ValueError
   \<and> map_sum id (\<lambda>r. (cout_min_ht r, cout_max_ht r))
        (estimer_cout_reseau (PStr ''eau_potable'') (PInt 100) (PFloat (Fin (- (1 / 2 ^ 1074))))) =
      Inr (''0 '' @ euro @ ''HT'', ''0 '' @ euro @ ''HT'')
   \<and> estimer_cout_reseau (PStr ''eau_potable'') (PFloat NaN) (PInt 200) = Inl ValueError"
proof -
  have b: "nombre_borne (10 ^ 15) (PInt 100) \<and> nombre_borne (10 ^ 15) (PInt 300)
           \<and> nombre_positif (PInt 300)"
    by (simp add: nombre_borne_def nombre_positif_def)
  note th = estimer_cout_reseau_arrondi[of "''eau_potable''" "PInt 100" "PInt 300" "[]"]
  have f: "fourchette_de ''eau_potable'' = (150, 350)"
    using th by (elim conjE)
  from th[THEN conjunct2, THEN conjunct1, rule_format, OF b] obtain r where
    r: "estimer_cout_reseau (PStr ''eau_potable'') (PInt 100) (PInt 300) = Inr r" by blast
  from th[THEN conjunct1, rule_format, OF r] obtain coeff cout_min cout_max where
    "then_res (py_truediv (PInt 300) (PInt 200)) math_sqrt = Inr coeff"
    "then_res (then_res (py_mul (PInt 150) (PInt 100)) (\<lambda>a. py_mul a coeff)) py_round
       = Inr cout_min"
    "then_res (then_res (py_mul (PInt 350) (PInt 100)) (\<lambda>a. py_mul a coeff)) py_round
       = Inr cout_max"
    "cout_min_ht r = replace_virgule (format_virgule cout_min @ '' '' @ euro @ ''HT'')"
    unfolding f by auto
  then have main: "\<exists>r coeff cout_min cout_max.
       estimer_cout_reseau (PStr ''eau_potable'') (PInt 100) (PInt 300) = Inr r
     \<and> then_res (py_truediv (PInt 300) (PInt 200)) math_sqrt = Inr coeff
     \<and> then_res (then_res (py_mul (PInt 150) (PInt 100)) (\<lambda>a. py_mul a coeff)) py_round
          = Inr cout_min
     \<and> then_res (then_res (py_mul (PInt 350) (PInt 100)) (\<lambda>a. py_mul a coeff)) py_round
          = Inr cout_max
     \<and> cout_min_ht r = replace_virgule (format_virgule cout_min @ '' '' @ euro @ ''HT'')"
    using r by blast
  have neg: "\<forall>n. n < 0 \<and> - (10 ^ 300) \<le> n \<longrightarrow>
        estimer_cout_reseau (PStr ''eau_potable'') (PInt 100) (PInt n) = Inl ValueError"
    using th by (elim conjE)
  have "(- 200 :: int) < 0 \<and> - (10 ^ 300) \<le> (- 200 :: int)" by simp
  with neg have n200:
    "estimer_cout_reseau (PStr ''eau_potable'') (PInt 100) (PInt (- 200)) = Inl ValueError"
    by blast
  have petit: "\<forall>q. - (25 / 2 ^ 1072) \<le> q \<and> q \<le> 0 \<and> nombre_borne (10 ^ 15) (PInt 100) \<longrightarrow>
        map_sum id (\<lambda>r. (cout_min_ht r, cout_max_ht r))
          (estimer_cout_reseau (PStr ''eau_potable'') (PInt 100) (PFloat (Fin q))) =
        Inr (''0 '' @ euro @ ''HT'', ''0 '' @ euro @ ''HT'')"
    using th by (elim conjE)
  have "- (25 / 2 ^ 1072) \<le> (- (1 / 2 ^ 1074) :: rat) \<and> (- (1 / 2 ^ 1074) :: rat) \<le> 0
        \<and> nombre_borne (10 ^ 15) (PInt 100)"
    using b by simp
  with petit have zero: "map_sum id (\<lambda>r. (cout_min_ht r, cout_max_ht r))
        (estimer_cout_reseau (PStr ''eau_potable'') (PInt 100) (PFloat (Fin (- (1 / 2 ^ 1074))))) =
      Inr (''0 '' @ euro @ ''HT'', ''0 '' @ euro @ ''HT'')"
    by blast
  note th2 = estimer_cout_reseau_arrondi[of "''eau_potable''" "PInt 100" "PInt 200" "[]"]
  have "nombre_borne (10 ^ 15) (PInt 200) \<and> nombre_positif (PInt 200) \<longrightarrow>
        estimer_cout_reseau (PStr ''eau_potable'') (PFloat NaN) (PInt 200) = Inl ValueError"
    using th2 by (elim conjE)
  then have nan: "estimer_cout_reseau (PStr ''eau_potable'') (PFloat NaN) (PInt 200) = Inl ValueError"
    by (simp add: nombre_borne_def nombre_positif_def)
  show ?thesis using main n200 zero nan by (intro conjI)
qed

text \<open>
  Claim C7 as stated fails: for \<^verbatim>\<open>eau_potable\<close>, a length of 0.25 and a diameter of
  200 the coefficient is 1.0 and the stated range is 37.5 to 87.5; the costs returned
  are the strings of the integers 38 and 88.
\<close>

theorem estimer_cout_arrondit_a_l_entier:
  "map_sum id (\<lambda>r. (cout_min_ht r, cout_max_ht r))
     (estimer_cout_reseau (PStr ''eau_potable'') (PFloat (Fin (1 / 4))) (PInt 200)) =
   Inr (''38 '' @ euro @ ''HT'', ''88 '' @ euro @ ''HT'')
   \<and> then_res (py_truediv (PInt 200) (PInt 200)) math_sqrt = Inr (PFloat (Fin 1))
   \<and> (150 * (1 / 4) * 1 :: rat) = 75 / 2 \<and> (350 * (1 / 4) * 1 :: rat) = 175 / 2"
  by code_simp

text \<open>
  Claim C8. For every network kind that is none of the four of the table, the lookup
  gives the range 200 to 500 and does not fail; the costs are computed from 200 and 500
  as for a recognized kind, and the whole call does what it does for
  \<^verbatim>\<open>assainissement\<close> (the kind of the table with that range), but for the kind echoed.
  With a length and a diameter that are ints or finite floats up to \<open>10^15\<close>, the
  diameter not negative, the call returns.
\<close>

theorem estimer_cout_reseau_defaut:
  assumes "t \<notin> {''eau_potable'', ''assainissement'', ''pluvial'', ''telecom''}"
  shows "dict_get COUTS_RESEAU (PStr t) (200, 500) = Inr (200, 500)
     \<and> (\<forall>r. estimer_cout_reseau (PStr t) l d = Inr r \<longrightarrow>
          (\<exists>coeff cout_min cout_max.
              then_res (py_truediv d (PInt 200)) math_sqrt = Inr coeff
            \<and> then_res (then_res (py_mul (PInt 200) l) (\<lambda>a. py_mul a coeff)) py_round
                 = Inr cout_min
            \<and> then_res (then_res (py_mul (PInt 500) l) (\<lambda>a. py_mul a coeff)) py_round
                 = Inr cout_max
            \<and> cout_min_ht r = replace_virgule (format_virgule cout_min @ '' '' @ euro @ ''HT'')
            \<and> cout_max_ht r = replace_virgule (format_virgule cout_max @ '' '' @ euro @ ''HT'')))
     \<and> estimer_cout_reseau (PStr t) l d =
          map_sum id (\<lambda>r. r\<lparr>type_reseau := PStr t\<rparr>)
            (estimer_cout_reseau (PStr ''assainissement'') l d)
     \<and> (nombre_borne (10 ^ 15) l \<and> nombre_borne (10 ^ 15) d \<and> nombre_positif d \<longrightarrow>
          (\<exists>r. estimer_cout_reseau (PStr t) l d = Inr r))"
proof -
  have f: "fourchette_de t = (200, 500)"
    using assms by (simp add: fourchette_de_def)
  show ?thesis
  proof (intro conjI allI impI)
    show "dict_get COUTS_RESEAU (PStr t) (200, 500) = Inr (200, 500)"
      using f by (simp add: couts_get)
  next
    fix r assume "estimer_cout_reseau (PStr t) l d = Inr r"
    from estimer_cout_formule[OF this]
    show "\<exists>coeff cout_min cout_max.
              then_res (py_truediv d (PInt 200)) math_sqrt = Inr coeff
            \<and> then_res (then_res (py_mul (PInt 200) l) (\<lambda>a. py_mul a coeff)) py_round
                 = Inr cout_min
            \<and> then_res (then_res (py_mul (PInt 500) l) (\<lambda>a. py_mul a coeff)) py_round
                 = Inr cout_max
            \<and> cout_min_ht r = replace_virgule (format_virgule cout_min @ '' '' @ euro @ ''HT'')
            \<and> cout_max_ht r = replace_virgule (format_virgule cout_max @ '' '' @ euro @ ''HT'')"
      by (simp add: f)
  next
    show "estimer_cout_reseau (PStr t) l d =
          map_sum id (\<lambda>r. r\<lparr>type_reseau := PStr t\<rparr>)
            (estimer_cout_reseau (PStr ''assainissement'') l d)"
      using assms by (rule estimer_cout_inconnu)
  next
    assume "nombre_borne (10 ^ 15) l \<and> nombre_borne (10 ^ 15) d \<and> nombre_positif d"
    then show "\<exists>r. estimer_cout_reseau (PStr t) l d = Inr r"
      by (intro estimer_cout_reussit) auto
  qed
qed

lemma exemple_gaz:
  "map_sum id (\<lambda>r. (cout_min_ht r, cout_max_ht r))
     (estimer_cout_reseau (PStr ''gaz'') (PInt 100) (PInt 200)) =
   Inr (''20 000 '' @ euro @ ''HT'', ''50 000 '' @ euro @ ''HT'')"
  by code_simp

text \<open>The theorem at the kind \<^verbatim>\<open>gaz\<close>, 100 metres and a diameter of 200.\<close>

theorem estimer_cout_reseau_defaut_witness:
  "dict_get COUTS_RESEAU (PStr ''gaz'') (200, 500) = Inr (200, 500)
   \<and> (\<exists>r. estimer_cout_reseau (PStr ''gaz'') (PInt 100) (PInt 200) = Inr r)
   \<and> estimer_cout_reseau (PStr ''gaz'') (PInt 100) (PInt 200) =
        map_sum id (\<lambda>r. r\<lparr>type_reseau := PStr ''gaz''\<rparr>)
          (estimer_cout_reseau (PStr ''assainissement'') (PInt 100) (PInt 200))"
proof -
  have h: "''gaz'' \<notin> {''eau_potable'', ''assainissement'', ''pluvial'', ''telecom''}"
    by simp
  have b: "nombre_borne (10 ^ 15) (PInt 100) \<and> nombre_borne (10 ^ 15) (PInt 200)
           \<and> nombre_positif (PInt 200)"
    by (simp add: nombre_borne_def nombre_positif_def)
  show ?thesis
    using estimer_cout_reseau_defaut[OF h, of "PInt 100" "PInt 200"] b by blast
qed

section \<open>Failures of a tool call\<close>

lemma lier_args_TypeError: "lier_args params kw = Inl e \<Longrightarrow> e = TypeError"
proof (induction params arbitrary: e)
  case (Cons a params)
  then show ?case
    by (cases a) (auto simp: then_res_def split: option.splits sum.splits)
qed simp

lemma appel_kwargs_TypeError: "appel_kwargs params kw = Inl e \<Longrightarrow> e = TypeError"
  by (auto simp: appel_kwargs_def split: if_splits dest: lier_args_TypeError)

lemma lier_args_manquant:
  "(p, None) \<in> set params \<Longrightarrow> map_of kw p = None \<Longrightarrow> lier_args params kw = Inl TypeError"
proof (induction params)
  case (Cons a params)
  then show ?case
    by (cases a; cases "lier_args params kw")
       (auto simp: then_res_def split: option.splits dest: lier_args_TypeError)
qed simp

lemma appel_kwargs_manquant:
  "(p, None) \<in> set params \<Longrightarrow> map_of kw p = None \<Longrightarrow> appel_kwargs params kw = Inl TypeError"
  by (simp add: appel_kwargs_def lier_args_manquant)

lemma appel_kwargs_inattendu:
  "(k, v) \<in> set kw \<Longrightarrow> k \<notin> fst ` set params \<Longrightarrow> appel_kwargs params kw = Inl TypeError"
  by (force simp: appel_kwargs_def list_ex_iff)

lemma registry_calculer_volume:
  "map_of TOOL_REGISTRY ''calculer_volume'' = Some outil_calculer_volume"
  by (simp add: TOOL_REGISTRY_def)

lemma registry_estimer_cout_reseau:
  "map_of TOOL_REGISTRY ''estimer_cout_reseau'' = Some outil_estimer_cout_reseau"
  by (simp add: TOOL_REGISTRY_def)

lemma registry_memo_chantier:
  "map_of TOOL_REGISTRY ''memo_chantier'' = Some outil_memo_chantier"
  by (simp add: TOOL_REGISTRY_def)

lemma volume_manquant:
  "map_of inp ''longueur_m'' = None \<or> map_of inp ''largeur_m'' = None
     \<or> map_of inp ''profondeur_m'' = None \<Longrightarrow>
   outil_calculer_volume j inp = Inl (TypeError, j)"
  unfolding outil_calculer_volume_def
  by (elim disjE)
     (simp_all add: appel_kwargs_manquant[where p = "''longueur_m''"]
        appel_kwargs_manquant[where p = "''largeur_m''"]
        appel_kwargs_manquant[where p = "''profondeur_m''"])

lemma cout_manquant:
  "map_of inp ''type_reseau'' = None \<or> map_of inp ''longueur_m'' = None \<Longrightarrow>
   outil_estimer_cout_reseau j inp = Inl (TypeError, j)"
  unfolding outil_estimer_cout_reseau_def
  by (elim disjE)
     (simp_all add: appel_kwargs_manquant[where p = "''type_reseau''"]
        appel_kwargs_manquant[where p = "''longueur_m''"])

lemma memo_manquant:
  "map_of inp ''cle'' = None \<or> map_of inp ''valeur'' = None \<Longrightarrow>
   outil_memo_chantier j inp = Inl (TypeError, j)"
  unfolding outil_memo_chantier_def
  by (elim disjE)
     (simp_all add: appel_kwargs_manquant[where p = "''cle''"]
        appel_kwargs_manquant[where p = "''valeur''"])

lemma lier_args_length: "lier_args params kw = Inr vs \<Longrightarrow> length vs = length params"
proof (induction params arbitrary: vs)
  case (Cons a params)
  then show ?case
    by (cases a) (auto simp: then_res_def split: option.splits sum.splits)
qed simp

lemma lier_args_hd:
  "lier_args ((p, d) # params) kw = Inr vs \<Longrightarrow> map_of kw p = Some v \<Longrightarrow> vs ! 0 = v"
  by (auto simp: then_res_def split: sum.splits)

lemma appel_kwargs_Inr: "appel_kwargs params kw = Inr vs \<Longrightarrow> lier_args params kw = Inr vs"
  by (simp add: appel_kwargs_def split: if_splits)

lemma py_mul_None_left: "py_mul PNone b = Inl TypeError"
  by (cases b) (simp_all add: py_mul_def)

lemma calculer_volume_null: "calculer_volume PNone w d m = Inl TypeError"
  by (simp add: calculer_volume_def py_mul_None_left)

lemma volume_null:
  assumes "map_of inp ''longueur_m'' = Some PNone"
  shows "outil_calculer_volume j inp = Inl (TypeError, j)"
proof (cases "appel_kwargs [(''longueur_m'', None), (''largeur_m'', None),
                             (''profondeur_m'', None), (''materiau'', Some (PStr ''terre''))] inp")
  case (Inl e)
  then show ?thesis
    using appel_kwargs_TypeError[OF Inl] by (simp add: outil_calculer_volume_def)
next
  case (Inr vs)
  then have "vs ! 0 = PNone"
    using assms by (intro lier_args_hd[OF appel_kwargs_Inr])
  then show ?thesis
    using Inr by (simp add: outil_calculer_volume_def calculer_volume_null)
qed

lemma memo_cle_liste:
  assumes "map_of inp ''cle'' = Some (PList l)"
  shows "outil_memo_chantier j inp = Inl (TypeError, j)"
proof (cases "appel_kwargs [(''cle'', None), (''valeur'', None)] inp")
  case (Inl e)
  then show ?thesis
    using appel_kwargs_TypeError[OF Inl] by (simp add: outil_memo_chantier_def)
next
  case (Inr vs)
  then have "vs ! 0 = PList l"
    using assms by (intro lier_args_hd[OF appel_kwargs_Inr])
  then show ?thesis
    using Inr by (simp add: outil_memo_chantier_def memo_chantier_def)
qed

lemma en_texte_Inr [simp]: "(en_texte vs = Inr u) = list_all convertible vs"
  by (simp add: en_texte_def)

lemma en_texte_Inl [simp]: "(en_texte vs = Inl e) = (\<not> list_all convertible vs \<and> e = ValueError)"
  by (auto simp: en_texte_def)

lemma py_mul_float_droite:
  assumes "py_mul v (PFloat f) = Inr w"
  shows "(\<exists>g. w = PFloat g)
       \<and> ((\<exists>n. as_num v = Some (NInt n) \<and> \<not> trop_long n) \<or> (\<exists>x. as_num v = Some (NFloat x)))"
proof (cases "as_num v")
  case None
  then show ?thesis
    using assms by (cases v) (auto simp: py_mul_def split: option.splits)
next
  case (Some a)
  show ?thesis
  proof (cases a)
    case (NInt n)
    then obtain x where "float_of_int n = Inr x" "w = PFloat (float_mul x f)"
      using assms Some by (cases "float_of_int n") (auto simp: py_mul_def)
    then show ?thesis using Some NInt by (auto dest: float_of_int_court)
  next
    case (NFloat x)
    then show ?thesis using assms Some by (auto simp: py_mul_def)
  qed
qed

lemma py_round_nd_convertible:
  assumes "py_round_nd v nd = Inr w"
    and "(\<exists>n. as_num v = Some (NInt n) \<and> \<not> trop_long n) \<or> (\<exists>x. as_num v = Some (NFloat x))"
  shows "convertible w"
  using assms by (auto simp: py_round_nd_def split: pyfloat.splits)

lemma dict_get_DENSITES:
  assumes "dict_get DENSITES m (PFloat x) = Inr dens"
  shows "\<exists>f. dens = PFloat f"
  using assms
  by (auto simp: dict_get_def DENSITES_def split: if_splits pyval.splits)

lemma calculer_volume_convertible:
  assumes "calculer_volume l w p m = Inr r"
  shows "convertible (volume_m3 r) \<and> convertible (masse_t r) \<and> materiau r = m
       \<and> list_all convertible [l, w, p]"
proof -
  from assms obtain lw volume densite masse where
    v: "py_mul lw p = Inr volume" and
    d: "dict_get DENSITES m (PFloat (decimal 18 1)) = Inr densite" and
    ms: "py_mul volume densite = Inr masse" and
    vr: "py_round_nd volume 2 = Inr (volume_m3 r)" and
    mr: "py_round_nd masse 2 = Inr (masse_t r)" and
    t: "list_all convertible [l, w, p]" and
    m: "materiau r = m"
    unfolding calculer_volume_def by (auto simp: then_res_eq_Inr)
  from dict_get_DENSITES[OF d] obtain f where f: "densite = PFloat f" by blast
  from py_mul_float_droite[OF ms[unfolded f]] obtain g where
    g: "masse = PFloat g" and
    vol: "(\<exists>n. as_num volume = Some (NInt n) \<and> \<not> trop_long n) \<or> (\<exists>x. as_num volume = Some (NFloat x))"
    by blast
  have "convertible (volume_m3 r)" using vr vol by (rule py_round_nd_convertible)
  moreover have "convertible (masse_t r)"
    using mr unfolding g by (rule py_round_nd_convertible) simp
  ultimately show ?thesis using m t by simp
qed

lemma estimer_cout_echo:
  assumes "estimer_cout_reseau t l d = Inr r"
  shows "type_reseau r = t \<and> longueur_m r = l \<and> diametre_mm r = d"
  using assms unfolding estimer_cout_reseau_def by (auto simp: then_res_eq_Inr)

lemma lier_args_convertible:
  assumes "lier_args params kw = Inr vs" and "list_all convertible (map snd kw)"
    and "list_all (\<lambda>p. case snd p of None \<Rightarrow> True | Some v \<Rightarrow> convertible v) params"
  shows "list_all convertible vs"
  using assms
proof (induction params arbitrary: vs)
  case Nil
  then show ?case by simp
next
  case (Cons a params)
  obtain p d where a: "a = (p, d)" by (cases a)
  from Cons.prems(1) obtain v vs' where
    v: "(case map_of kw p of Some v \<Rightarrow> Some v | None \<Rightarrow> d) = Some v" and
    vs': "lier_args params kw = Inr vs'" and vs: "vs = v # vs'"
    unfolding a by (auto simp: then_res_eq_Inr split: option.splits)
  have "convertible v"
  proof (cases "map_of kw p")
    case None
    then show ?thesis using v Cons.prems(3) a by simp
  next
    case (Some u)
    then have "u \<in> snd ` set kw" by (metis map_of_SomeD image_eqI snd_conv)
    then show ?thesis using v Some Cons.prems(2) by (auto simp: list_all_iff)
  qed
  moreover have "list_all convertible vs'"
    using Cons.IH[OF vs' Cons.prems(2)] Cons.prems(3) by simp
  ultimately show ?case using vs by simp
qed

lemma dict_set_valeurs:
  assumes "list_all convertible (valeurs_journal j)" and "convertible key" and "convertible v"
  shows "list_all convertible (valeurs_journal (dict_set j key v))"
  using assms by (induction j) (auto simp: valeurs_journal_def)

lemma registry_cases:
  assumes "map_of TOOL_REGISTRY name = Some fn"
  shows "fn = outil_calculer_volume \<or> fn = outil_estimer_cout_reseau \<or> fn = outil_memo_chantier"
  using assms by (auto simp: TOOL_REGISTRY_def split: if_splits)

lemma outil_echec_journal:
  assumes "map_of TOOL_REGISTRY name = Some fn" and "list_all convertible (map snd inp)"
    and "fn j inp = Inl (e, j')"
  shows "j' = j"
proof -
  consider (v) "fn = outil_calculer_volume" | (c) "fn = outil_estimer_cout_reseau"
    | (m) "fn = outil_memo_chantier"
    using registry_cases[OF assms(1)] by blast
  then show ?thesis
  proof cases
    case v
    then show ?thesis using assms(3) by (auto simp: outil_calculer_volume_def split: sum.splits)
  next
    case c
    then show ?thesis using assms(3) by (auto simp: outil_estimer_cout_reseau_def split: sum.splits)
  next
    case m
    show ?thesis
    proof (cases "appel_kwargs [(''cle'', None), (''valeur'', None)] inp")
      case (Inl x)
      then show ?thesis using assms(3) m by (simp add: outil_memo_chantier_def)
    next
      case (Inr args)
      have "list_all convertible args"
        using appel_kwargs_Inr[OF Inr] assms(2) by (rule lier_args_convertible) simp
      moreover have "length args = 2"
        using lier_args_length[OF appel_kwargs_Inr[OF Inr]] by simp
      ultimately have "convertible (args ! 0)" by (simp add: list_all_length)
      then show ?thesis
        using assms(3) m Inr
        by (auto simp: outil_memo_chantier_def memo_chantier_def Let_def
            split: sum.splits if_splits prod.splits)
    qed
  qed
qed

lemma list_all_nth: "list_all P xs \<Longrightarrow> i < length xs \<Longrightarrow> P (xs ! i)"
  by (simp add: list_all_length)

lemma outil_resultat_convertible:
  assumes "map_of TOOL_REGISTRY name = Some fn" and inp: "list_all convertible (map snd inp)"
    and jc: "list_all convertible (valeurs_journal j)"
    and ret: "fn j inp = Inr (res, j')"
  shows "list_all convertible (valeurs res) \<and> list_all convertible (valeurs_journal j')"
proof -
  consider (v) "fn = outil_calculer_volume" | (c) "fn = outil_estimer_cout_reseau"
    | (m) "fn = outil_memo_chantier"
    using registry_cases[OF assms(1)] by blast
  then show ?thesis
  proof cases
    case v
    let ?P = "[(''longueur_m'', None), (''largeur_m'', None),
               (''profondeur_m'', None), (''materiau'', Some (PStr ''terre''))]"
    show ?thesis
    proof (cases "appel_kwargs ?P inp")
      case (Inl e)
      then show ?thesis using ret v by (simp add: outil_calculer_volume_def)
    next
      case (Inr args)
      have la: "list_all convertible args"
        using appel_kwargs_Inr[OF Inr] inp by (rule lier_args_convertible) simp
      have len: "length args = 4"
        using lier_args_length[OF appel_kwargs_Inr[OF Inr]] by simp
      have a3: "convertible (args ! 3)" using la by (rule list_all_nth) (simp add: len)
      show ?thesis
      proof (cases "calculer_volume (args ! 0) (args ! 1) (args ! 2) (args ! 3)")
        case e: (Inl e)
        then show ?thesis using ret v Inr by (simp add: outil_calculer_volume_def)
      next
        case r: (Inr r)
        then have "res = Volume r" "j' = j"
          using ret v Inr by (simp_all add: outil_calculer_volume_def)
        then show ?thesis
          using calculer_volume_convertible[OF r] a3 jc by simp
      qed
    qed
  next
    case c
    let ?P = "[(''type_reseau'', None), (''longueur_m'', None),
               (''diametre_mm'', Some (PInt 200))]"
    show ?thesis
    proof (cases "appel_kwargs ?P inp")
      case (Inl e)
      then show ?thesis using ret c by (simp add: outil_estimer_cout_reseau_def)
    next
      case (Inr args)
      have t: "\<not> trop_long 200" by (rule court) simp
      have la: "list_all convertible args"
        using appel_kwargs_Inr[OF Inr] inp by (rule lier_args_convertible) (simp add: t)
      have len: "length args = 3"
        using lier_args_length[OF appel_kwargs_Inr[OF Inr]] by simp
      have a: "convertible (args ! 0)" "convertible (args ! 1)" "convertible (args ! 2)"
        using list_all_nth[OF la, of 0] list_all_nth[OF la, of 1] list_all_nth[OF la, of 2]
        by (simp_all add: len)
      show ?thesis
      proof (cases "estimer_cout_reseau (args ! 0) (args ! 1) (args ! 2)")
        case e: (Inl e)
        then show ?thesis using ret c Inr by (simp add: outil_estimer_cout_reseau_def)
      next
        case r: (Inr r)
        then have "res = Cout r" "j' = j"
          using ret c Inr by (simp_all add: outil_estimer_cout_reseau_def)
        then show ?thesis
          using estimer_cout_echo[OF r] a jc by simp
      qed
    qed
  next
    case m
    show ?thesis
    proof (cases "appel_kwargs [(''cle'', None), (''valeur'', None)] inp")
      case (Inl e)
      then show ?thesis using ret m by (simp add: outil_memo_chantier_def)
    next
      case (Inr args)
      have la: "list_all convertible args"
        using appel_kwargs_Inr[OF Inr] inp by (rule lier_args_convertible) simp
      have len: "length args = 2"
        using lier_args_length[OF appel_kwargs_Inr[OF Inr]] by simp
      have a: "convertible (args ! 0)" "convertible (args ! 1)"
        using list_all_nth[OF la, of 0] list_all_nth[OF la, of 1]
        by (simp_all add: len)
      from ret m Inr obtain r where
        r: "memo_chantier j (args ! 0) (args ! 1) = Inr (r, j')" and res: "res = Memo r"
        by (auto simp: outil_memo_chantier_def split: sum.splits prod.splits)
      from r have "j' = dict_set j (args ! 0) (args ! 1)" "journal r = j'" "cle r = args ! 0"
        by (auto simp: memo_chantier_def Let_def split: if_splits sum.splits)
      then show ?thesis
        using dict_set_valeurs[OF jc a] a res by simp
    qed
  qed
qed

lemma executer_outil_retourne:
  assumes "list_all convertible (map snd inp)"
  shows "\<exists>p j'. executer_outil j name inp = (Inr p, j')"
proof (cases "map_of TOOL_REGISTRY name")
  case None
  then show ?thesis by (simp add: executer_outil_def)
next
  case (Some fn)
  show ?thesis
  proof (cases "bloc_try fn j inp")
    case (Inl x)
    then show ?thesis
      using Some assms by (cases x) (simp add: executer_outil_def en_texte_def)
  next
    case (Inr y)
    then show ?thesis
      using Some by (cases y) (simp add: executer_outil_def)
  qed
qed

lemma executer_outil_capture:
  assumes "map_of TOOL_REGISTRY name = Some fn" and "fn j inp = Inl (e, j')"
    and "list_all convertible (map snd inp)"
  shows "j' = j \<and> executer_outil j name inp = (Inr (Erreur_outil e name inp), j)"
proof -
  have j: "j' = j" using assms(1,3,2) by (rule outil_echec_journal)
  have "bloc_try fn j inp = Inl (e, j)" using assms(2) j by (simp add: bloc_try_def)
  then show ?thesis
    using assms(1,3) j by (simp add: executer_outil_def en_texte_def)
qed

lemma executer_outil_resultat:
  assumes "map_of TOOL_REGISTRY name = Some fn" and "fn j inp = Inr (res, j')"
    and "list_all convertible (valeurs res)"
  shows "executer_outil j name inp = (Inr (Resultat res), j')"
  using assms by (simp add: executer_outil_def bloc_try_def en_texte_def)

lemma executer_outil_resultat_illisible:
  assumes "map_of TOOL_REGISTRY name = Some fn" and "fn j inp = Inr (res, j')"
    and "\<not> list_all convertible (valeurs res)" and "list_all convertible (map snd inp)"
  shows "executer_outil j name inp = (Inr (Erreur_outil ValueError name inp), j')"
  using assms by (simp add: executer_outil_def bloc_try_def en_texte_def)

lemma executer_outil_decode:
  assumes inp: "list_all convertible (map snd inp)"
    and jc: "list_all convertible (valeurs_journal j)"
  shows "executer_outil j name inp =
           (Inr (fst (executer_outil_json j name inp)), snd (executer_outil_json j name inp))
       \<and> list_all convertible (valeurs_journal (snd (executer_outil_json j name inp)))"
proof (cases "map_of TOOL_REGISTRY name")
  case None
  then show ?thesis using jc by (simp add: executer_outil_def executer_outil_json_def)
next
  case (Some fn)
  show ?thesis
  proof (cases "fn j inp")
    case (Inl x)
    obtain e j' where x: "x = (e, j')" by (cases x)
    from executer_outil_capture[OF Some Inl[unfolded x] inp]
    show ?thesis using Some Inl x jc by (simp add: executer_outil_json_def)
  next
    case (Inr y)
    obtain res j' where y: "y = (res, j')" by (cases y)
    from outil_resultat_convertible[OF Some inp jc Inr[unfolded y]]
    have c: "list_all convertible (valeurs res)" "list_all convertible (valeurs_journal j')"
      by simp_all
    from executer_outil_resultat[OF Some Inr[unfolded y] c(1)]
    show ?thesis using Some Inr y c(2) by (simp add: executer_outil_json_def)
  qed
qed

lemma registry_Some:
  "map_of TOOL_REGISTRY name = Some fn \<Longrightarrow>
     name \<in> {''calculer_volume'', ''estimer_cout_reseau'', ''memo_chantier''}"
  using registry_None[of name] by fastforce

lemma executer_outil_leve:
  assumes "executer_outil j name inp = (Inl e, j')"
  shows "e = ValueError \<and> \<not> list_all convertible (map snd inp)
       \<and> name \<in> {''calculer_volume'', ''estimer_cout_reseau'', ''memo_chantier''}"
proof (cases "map_of TOOL_REGISTRY name")
  case None
  then show ?thesis using assms by (simp add: executer_outil_def)
next
  case (Some fn)
  have "e = ValueError \<and> \<not> list_all convertible (map snd inp)"
    using assms Some
    by (auto simp: executer_outil_def en_texte_def split: sum.splits prod.splits if_splits)
  then show ?thesis using registry_Some[OF Some] by simp
qed

lemma lier_args_nth:
  "lier_args params kw = Inr vs \<Longrightarrow> i < length params \<Longrightarrow>
     map_of kw (fst (params ! i)) = Some v \<Longrightarrow> vs ! i = v"
proof (induction params arbitrary: vs i)
  case Nil
  then show ?case by simp
next
  case (Cons a params)
  obtain p d where a: "a = (p, d)" by (cases a)
  from Cons.prems(1) obtain u vs' where
    u: "(case map_of kw p of Some v \<Rightarrow> Some v | None \<Rightarrow> d) = Some u" and
    vs': "lier_args params kw = Inr vs'" and vs: "vs = u # vs'"
    unfolding a by (auto simp: then_res_eq_Inr split: option.splits)
  show ?case
  proof (cases i)
    case 0
    then show ?thesis using Cons.prems(3) u vs a by simp
  next
    case (Suc i')
    then show ?thesis using Cons.IH[OF vs', of i'] Cons.prems(2,3) vs by simp
  qed
qed

lemma appel_kwargs_valeurs:
  assumes "appel_kwargs params kw = Inr vs" and "distinct (map fst kw)"
    and "list_all convertible vs"
  shows "list_all convertible (map snd kw)"
proof -
  have conv: "convertible v" if kv: "(k, v) \<in> set kw" for k v
  proof -
    have "k \<in> fst ` set params"
    proof (rule ccontr)
      assume "k \<notin> fst ` set params"
      from appel_kwargs_inattendu[OF kv this] show False using assms(1) by simp
    qed
    then obtain i where i: "i < length params" "fst (params ! i) = k"
      by (metis in_set_conv_nth image_iff)
    have "map_of kw k = Some v" using assms(2) kv by (rule map_of_is_SomeI)
    then have "vs ! i = v"
      using lier_args_nth[OF appel_kwargs_Inr[OF assms(1)] i(1)] i(2) by simp
    moreover have "i < length vs"
      using lier_args_length[OF appel_kwargs_Inr[OF assms(1)]] i(1) by simp
    ultimately show ?thesis using list_all_nth[OF assms(3)] by blast
  qed
  then show ?thesis by (auto simp: list_all_iff)
qed

lemma dict_set_valeur: "\<exists>k. (k, v) \<in> set (dict_set j key v)"
  by (induction j) auto

lemma valeurs_journal_snd: "(k, v) \<in> set j \<Longrightarrow> v \<in> set (valeurs_journal j)"
  by (force simp: valeurs_journal_def)

lemma dict_set_contient: "v \<in> set (valeurs_journal (dict_set j key v))"
  using dict_set_valeur[of v j key] by (auto intro: valeurs_journal_snd)

lemma bloc_try_entrees:
  assumes reg: "map_of TOOL_REGISTRY name = Some fn" and dist: "distinct (map fst inp)"
    and ret: "bloc_try fn j inp = Inr (res, j')"
  shows "list_all convertible (map snd inp)"
proof -
  from ret have fn: "fn j inp = Inr (res, j')" and vals: "list_all convertible (valeurs res)"
    by (auto simp: bloc_try_def en_texte_def split: sum.splits prod.splits if_splits)
  consider (v) "fn = outil_calculer_volume" | (c) "fn = outil_estimer_cout_reseau"
    | (m) "fn = outil_memo_chantier"
    using registry_cases[OF reg] by blast
  then show ?thesis
  proof cases
    case v
    let ?P = "[(''longueur_m'', None), (''largeur_m'', None),
               (''profondeur_m'', None), (''materiau'', Some (PStr ''terre''))]"
    show ?thesis
    proof (cases "appel_kwargs ?P inp")
      case (Inl e)
      then show ?thesis using fn v by (simp add: outil_calculer_volume_def)
    next
      case (Inr args)
      have len: "length args = 4"
        using lier_args_length[OF appel_kwargs_Inr[OF Inr]] by simp
      then obtain a0 a1 a2 a3 where args: "args = [a0, a1, a2, a3]"
        by (auto simp: length_Suc_conv numeral_eq_Suc)
      show ?thesis
      proof (cases "calculer_volume a0 a1 a2 a3")
        case e: (Inl e)
        then show ?thesis using fn v Inr args by (simp add: outil_calculer_volume_def)
      next
        case r: (Inr r)
        then have "res = Volume r"
          using fn v Inr args by (simp add: outil_calculer_volume_def)
        then have "list_all convertible args"
          using calculer_volume_convertible[OF r] vals args by simp
        with Inr dist show ?thesis by (rule appel_kwargs_valeurs)
      qed
    qed
  next
    case c
    let ?P = "[(''type_reseau'', None), (''longueur_m'', None),
               (''diametre_mm'', Some (PInt 200))]"
    show ?thesis
    proof (cases "appel_kwargs ?P inp")
      case (Inl e)
      then show ?thesis using fn c by (simp add: outil_estimer_cout_reseau_def)
    next
      case (Inr args)
      have len: "length args = 3"
        using lier_args_length[OF appel_kwargs_Inr[OF Inr]] by simp
      then obtain a0 a1 a2 where args: "args = [a0, a1, a2]"
        by (auto simp: length_Suc_conv numeral_eq_Suc)
      show ?thesis
      proof (cases "estimer_cout_reseau a0 a1 a2")
        case e: (Inl e)
        then show ?thesis using fn c Inr args by (simp add: outil_estimer_cout_reseau_def)
      next
        case r: (Inr r)
        then have "res = Cout r"
          using fn c Inr args by (simp add: outil_estimer_cout_reseau_def)
        then have "list_all convertible args"
          using estimer_cout_echo[OF r] vals args by simp
        with Inr dist show ?thesis by (rule appel_kwargs_valeurs)
      qed
    qed
  next
    case m
    show ?thesis
    proof (cases "appel_kwargs [(''cle'', None), (''valeur'', None)] inp")
      case (Inl e)
      then show ?thesis using fn m by (simp add: outil_memo_chantier_def)
    next
      case (Inr args)
      have len: "length args = 2"
        using lier_args_length[OF appel_kwargs_Inr[OF Inr]] by simp
      then obtain a0 a1 where args: "args = [a0, a1]"
        by (auto simp: length_Suc_conv numeral_eq_Suc)
      from fn m Inr args obtain r where
        r: "memo_chantier j a0 a1 = Inr (r, j')" and res: "res = Memo r"
        by (auto simp: outil_memo_chantier_def split: sum.splits prod.splits)
      from r have jr: "journal r = dict_set j a0 a1" and k: "cle r = a0"
        by (auto simp: memo_chantier_def Let_def split: if_splits sum.splits)
      have "a1 \<in> set (valeurs (Memo r))"
        using dict_set_contient[of a1 j a0] jr by simp
      then have "convertible a1" using vals res by (auto simp: list_all_iff)
      moreover have "convertible a0" using vals res k by simp
      ultimately have "list_all convertible args" using args by simp
      with Inr dist show ?thesis by (rule appel_kwargs_valeurs)
    qed
  qed
qed

lemma executer_outil_leve_si:
  assumes "name \<in> {''calculer_volume'', ''estimer_cout_reseau'', ''memo_chantier''}"
    and "distinct (map fst inp)" and "\<not> list_all convertible (map snd inp)"
  shows "\<exists>j'. executer_outil j name inp = (Inl ValueError, j')"
proof -
  obtain fn where reg: "map_of TOOL_REGISTRY name = Some fn"
    using assms(1) by (auto simp: TOOL_REGISTRY_def)
  show ?thesis
  proof (cases "bloc_try fn j inp")
    case (Inl x)
    then show ?thesis
      using reg assms(3) by (cases x) (simp add: executer_outil_def en_texte_def)
  next
    case (Inr y)
    obtain res j' where "y = (res, j')" by (cases y)
    with Inr bloc_try_entrees[OF reg assms(2)] assms(3) show ?thesis by blast
  qed
qed

text \<open>
  Claim C4, amended. For every tool name, journal and input mapping whose values can be
  converted to text (none holds an int of more than 4300 digits, as is the case of every
  mapping decoded from JSON), \<^verbatim>\<open>executer_outil\<close> returns a payload and does not raise, and:
  \<^item> whenever the call of the resolved handler raises, the exception is caught: the
    payload holds the error, the tool name and the original input, and the journal is as
    before the call;
  \<^item> the call does raise \<^verbatim>\<open>TypeError\<close> when a required parameter is missing, and when a
    parameter has a type the handler cannot work with (a null length for
    \<^verbatim>\<open>calculer_volume\<close>, a list as the key of \<^verbatim>\<open>memo_chantier\<close>);
  \<^item> when the handler returns, the payload is its result, unless the result cannot be
    converted to text, which takes a journal that holds an int too long: the payload is
    then that of the error;
  \<^item> when the journal too holds only values that can be converted, the result of a
    handler that returns can always be converted: \<^verbatim>\<open>executer_outil\<close> returns what
    \<open>executer_outil_json\<close> gives, and the journal it leaves holds only such values again.

  No check of the declared parameter types stands before the call, so a wrongly-typed
  parameter that the handler's operations accept gives a normal result.

  The theorem also says what happens on the inputs that the amended claim leaves out.
  What \<^verbatim>\<open>executer_outil\<close> raises is \<^verbatim>\<open>ValueError\<close>, only for a registered tool and an input
  holding an int too long; and for a registered tool it raises for every such input
  (its keys distinct, as the keys of a dict are): the handler raises or its result
  cannot be converted, and then the error dict, which holds the input, cannot be
  serialised by the \<^verbatim>\<open>json.dumps\<close> of the \<^verbatim>\<open>except\<close> clause. With the value \<open>10^4300\<close> for
  \<^verbatim>\<open>memo_chantier\<close> the journal is written before the exception leaves \<^verbatim>\<open>executer_outil\<close>.
\<close>

theorem executer_outil_erreurs_capturees:
  "(list_all convertible (map snd inp) \<longrightarrow>
      (\<exists>p j'. executer_outil j name inp = (Inr p, j'))
    \<and> (\<forall>fn e j'. map_of TOOL_REGISTRY name = Some fn \<and> fn j inp = Inl (e, j') \<longrightarrow>
          j' = j \<and> executer_outil j name inp = (Inr (Erreur_outil e name inp), j))
    \<and> (name = ''calculer_volume'' \<and>
          (map_of inp ''longueur_m'' = None \<or> map_of inp ''largeur_m'' = None
             \<or> map_of inp ''profondeur_m'' = None \<or> map_of inp ''longueur_m'' = Some PNone) \<longrightarrow>
          executer_outil j name inp = (Inr (Erreur_outil TypeError name inp), j))
    \<and> (name = ''estimer_cout_reseau'' \<and>
          (map_of inp ''type_reseau'' = None \<or> map_of inp ''longueur_m'' = None) \<longrightarrow>
          executer_outil j name inp = (Inr (Erreur_outil TypeError name inp), j))
    \<and> (name = ''memo_chantier'' \<and>
          (map_of inp ''cle'' = None \<or> map_of inp ''valeur'' = None
             \<or> (\<exists>l. map_of inp ''cle'' = Some (PList l))) \<longrightarrow>
          executer_outil j name inp = (Inr (Erreur_outil TypeError name inp), j))
    \<and> (\<forall>fn res j'. map_of TOOL_REGISTRY name = Some fn \<and> fn j inp = Inr (res, j') \<longrightarrow>
          executer_outil j name inp =
            (if list_all convertible (valeurs res) then (Inr (Resultat res), j')
             else (Inr (Erreur_outil ValueError name inp), j')))
    \<and> (list_all convertible (valeurs_journal j) \<longrightarrow>
          executer_outil j name inp =
            (Inr (fst (executer_outil_json j name inp)), snd (executer_outil_json j name inp))
        \<and> list_all convertible (valeurs_journal (snd (executer_outil_json j name inp)))))
   \<and> (\<forall>fn res j'. map_of TOOL_REGISTRY name = Some fn \<and> fn j inp = Inr (res, j')
          \<and> list_all convertible (valeurs res) \<longrightarrow>
        executer_outil j name inp = (Inr (Resultat res), j'))
   \<and> (\<forall>e j'. executer_outil j name inp = (Inl e, j') \<longrightarrow>
          e = ValueError \<and> \<not> list_all convertible (map snd inp)
        \<and> name \<in> {''calculer_volume'', ''estimer_cout_reseau'', ''memo_chantier''})
   \<and> (name \<in> {''calculer_volume'', ''estimer_cout_reseau'', ''memo_chantier''}
        \<and> distinct (map fst inp) \<and> \<not> list_all convertible (map snd inp) \<longrightarrow>
        (\<exists>j'. executer_outil j name inp = (Inl ValueError, j')))
   \<and> executer_outil [] ''memo_chantier''
        [(''cle'', PStr ''k''), (''valeur'', PInt (10 ^ MAX_STR_DIGITS))] =
      (Inl ValueError, [(PStr ''k'', PInt (10 ^ MAX_STR_DIGITS))])"
proof (intro conjI allI impI)
  assume "list_all convertible (map snd inp)"
  then show "\<exists>p j'. executer_outil j name inp = (Inr p, j')"
    by (rule executer_outil_retourne)
next
  fix fn e j'
  assume c: "list_all convertible (map snd inp)"
    and "map_of TOOL_REGISTRY name = Some fn \<and> fn j inp = Inl (e, j')"
  then show "j' = j" and "executer_outil j name inp = (Inr (Erreur_outil e name inp), j)"
    using executer_outil_capture[of name fn j inp e j'] by simp_all
next
  assume c: "list_all convertible (map snd inp)"
    and h: "name = ''calculer_volume'' \<and>
        (map_of inp ''longueur_m'' = None \<or> map_of inp ''largeur_m'' = None
           \<or> map_of inp ''profondeur_m'' = None \<or> map_of inp ''longueur_m'' = Some PNone)"
  then have "outil_calculer_volume j inp = Inl (TypeError, j)"
    using volume_manquant[of inp j] volume_null[of inp j] by blast
  from executer_outil_capture[OF registry_calculer_volume this c]
  show "executer_outil j name inp = (Inr (Erreur_outil TypeError name inp), j)"
    using h by simp
next
  assume c: "list_all convertible (map snd inp)"
    and h: "name = ''estimer_cout_reseau'' \<and>
        (map_of inp ''type_reseau'' = None \<or> map_of inp ''longueur_m'' = None)"
  then have "outil_estimer_cout_reseau j inp = Inl (TypeError, j)"
    using cout_manquant[of inp j] by blast
  from executer_outil_capture[OF registry_estimer_cout_reseau this c]
  show "executer_outil j name inp = (Inr (Erreur_outil TypeError name inp), j)"
    using h by simp
next
  assume c: "list_all convertible (map snd inp)"
    and h: "name = ''memo_chantier'' \<and>
        (map_of inp ''cle'' = None \<or> map_of inp ''valeur'' = None
           \<or> (\<exists>l. map_of inp ''cle'' = Some (PList l)))"
  then have "outil_memo_chantier j inp = Inl (TypeError, j)"
    using memo_manquant[of inp j] memo_cle_liste[of inp _ j] by blast
  from executer_outil_capture[OF registry_memo_chantier this c]
  show "executer_outil j name inp = (Inr (Erreur_outil TypeError name inp), j)"
    using h by simp
next
  fix fn res j'
  assume c: "list_all convertible (map snd inp)"
    and h: "map_of TOOL_REGISTRY name = Some fn \<and> fn j inp = Inr (res, j')"
  show "executer_outil j name inp =
            (if list_all convertible (valeurs res) then (Inr (Resultat res), j')
             else (Inr (Erreur_outil ValueError name inp), j'))"
    using executer_outil_resultat[of name fn j inp res j']
      executer_outil_resultat_illisible[of name fn j inp res j'] c h
    by simp
next
  assume "list_all convertible (map snd inp)" and "list_all convertible (valeurs_journal j)"
  then show "executer_outil j name inp =
            (Inr (fst (executer_outil_json j name inp)), snd (executer_outil_json j name inp))"
    and "list_all convertible (valeurs_journal (snd (executer_outil_json j name inp)))"
    using executer_outil_decode[of inp j name] by simp_all
next
  fix fn res j'
  assume "map_of TOOL_REGISTRY name = Some fn \<and> fn j inp = Inr (res, j')
          \<and> list_all convertible (valeurs res)"
  then show "executer_outil j name inp = (Inr (Resultat res), j')"
    using executer_outil_resultat[of name fn j inp res j'] by simp
next
  fix e j'
  assume "executer_outil j name inp = (Inl e, j')"
  from executer_outil_leve[OF this]
  show "e = ValueError" and "\<not> list_all convertible (map snd inp)"
    and "name \<in> {''calculer_volume'', ''estimer_cout_reseau'', ''memo_chantier''}"
    by simp_all
next
  assume "name \<in> {''calculer_volume'', ''estimer_cout_reseau'', ''memo_chantier''}
        \<and> distinct (map fst inp) \<and> \<not> list_all convertible (map snd inp)"
  then show "\<exists>j'. executer_outil j name inp = (Inl ValueError, j')"
    by (intro executer_outil_leve_si) auto
next
  show "executer_outil [] ''memo_chantier''
        [(''cle'', PStr ''k''), (''valeur'', PInt (10 ^ MAX_STR_DIGITS))] =
      (Inl ValueError, [(PStr ''k'', PInt (10 ^ MAX_STR_DIGITS))])"
    using trop_long_max
    by (simp add: executer_outil_def bloc_try_def TOOL_REGISTRY_def outil_memo_chantier_def
          appel_kwargs_def memo_chantier_def en_texte_def valeurs_journal_def Let_def)
qed

text \<open>
  The theorem at a call with a missing parameter, at a call with a null length, and at
  a call with a value of 4301 digits.
\<close>

theorem executer_outil_erreurs_capturees_witness:
  "executer_outil [] ''memo_chantier'' [(''cle'', PStr ''volume'')] =
     (Inr (Erreur_outil TypeError ''memo_chantier'' [(''cle'', PStr ''volume'')]), [])
   \<and> executer_outil [] ''calculer_volume''
        [(''longueur_m'', PNone), (''largeur_m'', PInt 4), (''profondeur_m'', PInt 2)] =
     (Inr (Erreur_outil TypeError ''calculer_volume''
        [(''longueur_m'', PNone), (''largeur_m'', PInt 4), (''profondeur_m'', PInt 2)]), [])
   \<and> (\<exists>j'. executer_outil [] ''calculer_volume''
          [(''longueur_m'', PInt (10 ^ MAX_STR_DIGITS)), (''largeur_m'', PInt 0),
           (''profondeur_m'', PInt 2)] = (Inl ValueError, j'))"
proof -
  have t: "\<not> trop_long 4" "\<not> trop_long 2" "\<not> trop_long 0"
    by (rule court, simp)+
  have a: "executer_outil [] ''memo_chantier'' [(''cle'', PStr ''volume'')] =
     (Inr (Erreur_outil TypeError ''memo_chantier'' [(''cle'', PStr ''volume'')]), [])"
    using executer_outil_erreurs_capturees[of "[(''cle'', PStr ''volume'')]" "[]" "''memo_chantier''"]
    by simp
  have b: "executer_outil [] ''calculer_volume''
        [(''longueur_m'', PNone), (''largeur_m'', PInt 4), (''profondeur_m'', PInt 2)] =
     (Inr (Erreur_outil TypeError ''calculer_volume''
        [(''longueur_m'', PNone), (''largeur_m'', PInt 4), (''profondeur_m'', PInt 2)]), [])"
    using executer_outil_erreurs_capturees[of
        "[(''longueur_m'', PNone), (''largeur_m'', PInt 4), (''profondeur_m'', PInt 2)]" "[]"
        "''calculer_volume''"] t
    by simp
  have c: "\<exists>j'. executer_outil [] ''calculer_volume''
          [(''longueur_m'', PInt (10 ^ MAX_STR_DIGITS)), (''largeur_m'', PInt 0),
           (''profondeur_m'', PInt 2)] = (Inl ValueError, j')"
    using executer_outil_erreurs_capturees[of
        "[(''longueur_m'', PInt (10 ^ MAX_STR_DIGITS)), (''largeur_m'', PInt 0),
          (''profondeur_m'', PInt 2)]" "[]" "''calculer_volume''"] trop_long_max
    by simp
  show ?thesis using a b c by (intro conjI)
qed

text \<open>
  Claim C4 as stated fails: the parameter \<^verbatim>\<open>valeur\<close> of \<^verbatim>\<open>memo_chantier\<close> is declared a
  string; given the number 80 the call does not fail, the payload is the normal result
  and not an error, and the number is written in the journal.
\<close>

theorem parametre_mal_type_accepte:
  "executer_outil [] ''memo_chantier'' [(''cle'', PStr ''volume''), (''valeur'', PInt 80)] =
     (Inr (Resultat (Memo \<lparr>status = ''m'' @ e_aigu @ ''moris'' @ e_aigu, cle = PStr ''volume'',
                           journal = [(PStr ''volume'', PInt 80)]\<rparr>)),
      [(PStr ''volume'', PInt 80)])
   \<and> map_sum id est_erreur
        (fst (executer_outil [] ''memo_chantier''
                [(''cle'', PStr ''volume''), (''valeur'', PInt 80)])) = Inr False"
proof -
  have "\<not> trop_long 80" by (rule court) simp
  then show ?thesis
    by (simp add: executer_outil_def bloc_try_def TOOL_REGISTRY_def outil_memo_chantier_def
          appel_kwargs_def memo_chantier_def en_texte_def valeurs_journal_def Let_def)
qed

text \<open>
  Along a tool-use turn whose inputs are decoded from JSON, on a journal of such values:
  every call of \<^verbatim>\<open>executer_outil\<close> returns, with the payload and the journal that
  \<open>sequentiel\<close> (and so the loop) has at that step, and the journal stays one of such values.
\<close>

lemma sequentiel_convertible:
  assumes "entrees_convertibles invs" and "list_all convertible (valeurs_journal j)"
  shows "list_all convertible (valeurs_journal (snd (sequentiel invs j)))"
  using assms
proof (induction invs arbitrary: j)
  case Nil
  then show ?case by simp
next
  case (Cons a invs)
  obtain bid name inp where a: "a = (bid, name, inp)" by (cases a)
  have inp: "list_all convertible (map snd inp)" and rest: "entrees_convertibles invs"
    using Cons.prems(1) a by (simp_all add: entrees_convertibles_def)
  have "list_all convertible (valeurs_journal (snd (executer_outil_json j name inp)))"
    using executer_outil_decode[OF inp Cons.prems(2)] by simp
  from Cons.IH[OF rest this] show ?case by (simp add: a sequentiel_Cons)
qed

lemma sequentiel_take_Suc:
  assumes "k < length invs"
  shows "snd (sequentiel (take (Suc k) invs) j) =
           snd (executer_outil_json (snd (sequentiel (take k invs) j))
                  (fst (snd (invs ! k))) (snd (snd (invs ! k))))"
proof -
  obtain bid name inp where k: "invs ! k = (bid, name, inp)" by (cases "invs ! k")
  have "take (Suc k) invs = take k invs @ [(bid, name, inp)]"
    using assms k by (simp add: take_Suc_conv_app_nth)
  then show ?thesis by (simp add: sequentiel_append sequentiel_Cons k)
qed

lemma sequentiel_executer_outil:
  assumes "entrees_convertibles invs" and "list_all convertible (valeurs_journal j)"
    and "k < length invs"
  shows "executer_outil (snd (sequentiel (take k invs) j))
           (fst (snd (invs ! k))) (snd (snd (invs ! k))) =
         (Inr (tr_content (fst (sequentiel invs j) ! k)), snd (sequentiel (take (Suc k) invs) j))"
proof -
  have "entrees_convertibles (take k invs)"
    using assms(1) by (auto simp: entrees_convertibles_def list_all_iff dest: in_set_takeD)
  then have jc: "list_all convertible (valeurs_journal (snd (sequentiel (take k invs) j)))"
    using assms(2) by (rule sequentiel_convertible)
  have inp: "list_all convertible (map snd (snd (snd (invs ! k))))"
    using assms(1,3) by (auto simp: entrees_convertibles_def list_all_length)
  show ?thesis
    using executer_outil_decode[OF inp jc] sequentiel_nth[OF assms(3), of j]
      sequentiel_take_Suc[OF assms(3), of j]
    by simp
qed

end
